theory Spec2Isabelle
  imports Complex_Main "HOL-Library.Log_Nat" "HOL-Library.Monad_Syntax"
begin

section \<open>JavaScript numbers\<close>

text \<open>
  The colour codec of \<^verbatim>\<open>color.utils.ts\<close> computes on the JavaScript type \<^verbatim>\<open>number\<close>:
  IEEE 754 binary64 values.  A finite double is modelled by the rational it denotes, the
  two infinities and NaN are separate values.  The two zeros are identified: the code
  never divides by a variable that may be zero without testing it first, and a zero
  prints as \<^verbatim>\<open>0\<close> whatever its sign.
\<close>

datatype number = Fin rat | PosInf | NegInf | NaN

definition pow2 :: "int \<Rightarrow> rat" where
  "pow2 e = (if 0 \<le> e then 2 ^ nat e else 1 / 2 ^ nat (- e))"

text \<open>\<open>ilog2 x\<close> is the binary exponent of a positive rational: \<open>2^e \<le> x < 2^(e+1)\<close>.\<close>

definition ilog2 :: "rat \<Rightarrow> int" where
  "ilog2 x = (if 1 \<le> x then bitlen \<lfloor>x\<rfloor> - 1 else - bitlen (\<lceil>1 / x\<rceil> - 1))"

text \<open>Rounding to the nearest integer, ties to the even one.\<close>

definition round_even :: "rat \<Rightarrow> int" where
  "round_even x =
     (let f = \<lfloor>x\<rfloor>; d = x - of_int f
      in if d < 1 / 2 then f else if 1 / 2 < d then f + 1 else if even f then f else f + 1)"

text \<open>
  The spacing of the doubles around \<open>x\<close>: 53 significant bits, and the fixed spacing
  \<open>2^-1074\<close> of the subnormal range below \<open>2^-1022\<close>.
\<close>

definition quantum :: "rat \<Rightarrow> rat" where
  "quantum x = pow2 (max (ilog2 \<bar>x\<bar>) (- 1022) - 52)"

definition fl :: "rat \<Rightarrow> rat" where
  "fl x = (if x = 0 then 0 else of_int (round_even (x / quantum x)) * quantum x)"

text \<open>
  Round to nearest, ties to even; a result whose binary exponent has reached 1024 has
  overflowed to an infinity.
\<close>

definition to_double :: "rat \<Rightarrow> number" where
  "to_double x =
     (let y = fl x
      in if y \<noteq> 0 \<and> 1024 \<le> ilog2 \<bar>y\<bar> then (if 0 < y then PosInf else NegInf) else Fin y)"

fun fadd :: "number \<Rightarrow> number \<Rightarrow> number" where
  "fadd (Fin x) (Fin y) = to_double (x + y)"
| "fadd NaN _ = NaN"
| "fadd _ NaN = NaN"
| "fadd PosInf NegInf = NaN"
| "fadd NegInf PosInf = NaN"
| "fadd PosInf _ = PosInf"
| "fadd _ PosInf = PosInf"
| "fadd NegInf _ = NegInf"
| "fadd _ NegInf = NegInf"

fun fsub :: "number \<Rightarrow> number \<Rightarrow> number" where
  "fsub (Fin x) (Fin y) = to_double (x - y)"
| "fsub NaN _ = NaN"
| "fsub _ NaN = NaN"
| "fsub PosInf PosInf = NaN"
| "fsub NegInf NegInf = NaN"
| "fsub PosInf _ = PosInf"
| "fsub _ NegInf = PosInf"
| "fsub NegInf _ = NegInf"
| "fsub _ PosInf = NegInf"

text \<open>The sign of a number that is not NaN: \<open>-1\<close>, \<open>0\<close> or \<open>1\<close>.\<close>

fun sign_of :: "number \<Rightarrow> int" where
  "sign_of (Fin x) = (if x < 0 then - 1 else if x = 0 then 0 else 1)"
| "sign_of PosInf = 1"
| "sign_of NegInf = - 1"
| "sign_of NaN = 0"

definition inf_of_sign :: "int \<Rightarrow> number" where
  "inf_of_sign k = (if k = 0 then NaN else if 0 < k then PosInf else NegInf)"

fun fmul :: "number \<Rightarrow> number \<Rightarrow> number" where
  "fmul (Fin x) (Fin y) = to_double (x * y)"
| "fmul NaN _ = NaN"
| "fmul _ NaN = NaN"
| "fmul x y = inf_of_sign (sign_of x * sign_of y)"

fun fdiv :: "number \<Rightarrow> number \<Rightarrow> number" where
  "fdiv (Fin x) (Fin y) =
     (if y = 0 then inf_of_sign (sign_of (Fin x)) else to_double (x / y))"
| "fdiv NaN _ = NaN"
| "fdiv _ NaN = NaN"
| "fdiv (Fin x) _ = Fin 0"
| "fdiv x (Fin y) = inf_of_sign (sign_of x * (if y < 0 then - 1 else 1))"
| "fdiv _ _ = NaN"

text \<open>
  The remainder operator \<^verbatim>\<open>%\<close>: the result has the sign of the dividend and is exact.
\<close>

definition trunc :: "rat \<Rightarrow> int" where
  "trunc x = (if 0 \<le> x then \<lfloor>x\<rfloor> else \<lceil>x\<rceil>)"

fun fmod :: "number \<Rightarrow> number \<Rightarrow> number" where
  "fmod (Fin x) (Fin y) = (if y = 0 then NaN else Fin (x - y * of_int (trunc (x / y))))"
| "fmod NaN _ = NaN"
| "fmod _ NaN = NaN"
| "fmod (Fin x) _ = Fin x"
| "fmod _ _ = NaN"

text \<open>Comparisons: every comparison with NaN is false.\<close>

fun lt :: "number \<Rightarrow> number \<Rightarrow> bool" where
  "lt (Fin x) (Fin y) = (x < y)"
| "lt NaN _ = False"
| "lt _ NaN = False"
| "lt _ NegInf = False"
| "lt NegInf _ = True"
| "lt PosInf _ = False"
| "lt _ PosInf = True"

fun le :: "number \<Rightarrow> number \<Rightarrow> bool" where
  "le (Fin x) (Fin y) = (x \<le> y)"
| "le NaN _ = False"
| "le _ NaN = False"
| "le NegInf _ = True"
| "le _ PosInf = True"
| "le _ _ = False"

definition gt :: "number \<Rightarrow> number \<Rightarrow> bool" where
  "gt x y = lt y x"

definition ge :: "number \<Rightarrow> number \<Rightarrow> bool" where
  "ge x y = le y x"

text \<open>Strict equality \<^verbatim>\<open>===\<close> on numbers.\<close>

definition seq :: "number \<Rightarrow> number \<Rightarrow> bool" where
  "seq x y = (x \<noteq> NaN \<and> x = y)"

fun math_abs :: "number \<Rightarrow> number" where
  "math_abs (Fin x) = Fin \<bar>x\<bar>"
| "math_abs NaN = NaN"
| "math_abs _ = PosInf"

text \<open>\<^verbatim>\<open>Math.round\<close>: the nearest integer, a tie going up.\<close>

fun math_round :: "number \<Rightarrow> number" where
  "math_round (Fin x) = Fin (of_int \<lfloor>x + 1 / 2\<rfloor>)"
| "math_round x = x"

definition math_max :: "number \<Rightarrow> number \<Rightarrow> number" where
  "math_max x y = (if x = NaN \<or> y = NaN then NaN else if lt x y then y else x)"

definition math_min :: "number \<Rightarrow> number \<Rightarrow> number" where
  "math_min x y = (if x = NaN \<or> y = NaN then NaN else if lt y x then y else x)"

definition math_max3 :: "number \<Rightarrow> number \<Rightarrow> number \<Rightarrow> number" where
  "math_max3 x y z = math_max (math_max x y) z"

definition math_min3 :: "number \<Rightarrow> number \<Rightarrow> number \<Rightarrow> number" where
  "math_min3 x y z = math_min (math_min x y) z"

text \<open>
  What the platform supplies and the ECMAScript standard leaves to the implementation:
  the canvas that resolves a CSS colour name (absent outside a browser), the
  transcendental functions of \<^verbatim>\<open>Math\<close>, and the digits of a non-integral number in
  radix 16.
\<close>

record platform =
  canvas :: "(string \<Rightarrow> string) option"
  math_pow :: "number \<Rightarrow> number \<Rightarrow> number"
  math_cbrt :: "number \<Rightarrow> number"
  math_sqrt :: "number \<Rightarrow> number"
  math_atan2 :: "number \<Rightarrow> number \<Rightarrow> number"
  math_cos :: "number \<Rightarrow> number"
  math_sin :: "number \<Rightarrow> number"
  frac_toString16 :: "rat \<Rightarrow> string"

text \<open>\<^verbatim>\<open>Math.PI\<close> is the double nearest to \<open>\<pi>\<close>.\<close>

definition math_PI :: number where
  "math_PI = Fin (884279719003555 / 281474976710656)"

section \<open>Strings\<close>

text \<open>
  A string is a list of code units below 256.  \<^verbatim>\<open>toLowerCase\<close> maps the upper-case
  letters of that range; \<^verbatim>\<open>trim\<close> and the class \<^verbatim>\<open>\s\<close> know its seven white-space
  characters.
\<close>

definition is_space :: "char \<Rightarrow> bool" where
  "is_space ch = (of_char ch \<in> {9, 10, 11, 12, 13, 32, 160 :: nat})"

definition is_digit :: "char \<Rightarrow> bool" where
  "is_digit ch = (48 \<le> (of_char ch :: nat) \<and> (of_char ch :: nat) \<le> 57)"

definition is_hex_digit :: "char \<Rightarrow> bool" where
  "is_hex_digit ch =
     (let n = (of_char ch :: nat)
      in (48 \<le> n \<and> n \<le> 57) \<or> (65 \<le> n \<and> n \<le> 70) \<or> (97 \<le> n \<and> n \<le> 102))"

definition lower_char :: "char \<Rightarrow> char" where
  "lower_char ch =
     (let n = (of_char ch :: nat)
      in if (65 \<le> n \<and> n \<le> 90) \<or> (192 \<le> n \<and> n \<le> 222 \<and> n \<noteq> 215)
         then char_of (n + 32) else ch)"

definition toLowerCase :: "string \<Rightarrow> string" where
  "toLowerCase s = map lower_char s"

definition trim :: "string \<Rightarrow> string" where
  "trim s = rev (dropWhile is_space (rev (dropWhile is_space s)))"

definition padStart :: "nat \<Rightarrow> char \<Rightarrow> string \<Rightarrow> string" where
  "padStart n ch s = replicate (n - length s) ch @ s"

definition hexDigit :: "nat \<Rightarrow> char" where
  "hexDigit n = ''0123456789abcdef'' ! (n mod 16)"

fun toHex :: "nat \<Rightarrow> string" where
  "toHex n = (if n < 16 then [hexDigit n] else toHex (n div 16) @ [hexDigit (n mod 16)])"

declare toHex.simps [simp del]

text \<open>\<^verbatim>\<open>Number.prototype.toString(16)\<close>.\<close>

definition toString16 :: "platform \<Rightarrow> number \<Rightarrow> string" where
  "toString16 P x =
     (case x of
        NaN \<Rightarrow> ''NaN''
      | PosInf \<Rightarrow> ''Infinity''
      | NegInf \<Rightarrow> ''-Infinity''
      | Fin q \<Rightarrow>
          if of_int \<lfloor>q\<rfloor> = q
          then (if q < 0 then ''-'' @ toHex (nat (- \<lfloor>q\<rfloor>)) else toHex (nat \<lfloor>q\<rfloor>))
          else frac_toString16 P q)"

section \<open>The colour codec\<close>

record RgbColor =
  rgb_r :: number
  rgb_g :: number
  rgb_b :: number
  rgb_a :: number

record HsvColor =
  hsv_h :: number
  hsv_s :: number
  hsv_v :: number
  hsv_a :: number

record OklchColor =
  oklch_l :: number
  oklch_c :: number
  oklch_h :: number
  oklch_a :: number

record ColorValue =
  cv_hex :: string
  cv_rgb :: RgbColor
  cv_hsv :: HsvColor
  cv_oklch :: OklchColor

text \<open>\<^verbatim>\<open>rgbToHex\<close> of \<^verbatim>\<open>color.utils.ts\<close>.\<close>

definition rgbToHex :: "platform \<Rightarrow> RgbColor \<Rightarrow> string" where
  "rgbToHex P rgb =
     (let redHex = padStart 2 CHR ''0'' (toString16 P (rgb_r rgb));
          greenHex = padStart 2 CHR ''0'' (toString16 P (rgb_g rgb));
          blueHex = padStart 2 CHR ''0'' (toString16 P (rgb_b rgb));
          alphaHex =
            (if lt (rgb_a rgb) (Fin 1)
             then padStart 2 CHR ''0'' (toString16 P (math_round (fmul (rgb_a rgb) (Fin 255))))
             else '''')
      in ''#'' @ redHex @ greenHex @ blueHex @ alphaHex)"

text \<open>
  The near-duplicate \<^verbatim>\<open>rgbToHex\<close> kept beside \<^verbatim>\<open>ColorPickerIndicator.vue\<close>: transparent
  black for alpha zero, and never an alpha byte.
\<close>

definition rgbToHex_legacy :: "platform \<Rightarrow> RgbColor \<Rightarrow> string" where
  "rgbToHex_legacy P rgb =
     (if seq (rgb_a rgb) (Fin 0) then ''#00000000''
      else let redHex = padStart 2 CHR ''0'' (toString16 P (rgb_r rgb));
               greenHex = padStart 2 CHR ''0'' (toString16 P (rgb_g rgb));
               blueHex = padStart 2 CHR ''0'' (toString16 P (rgb_b rgb))
           in ''#'' @ redHex @ greenHex @ blueHex)"

text \<open>\<^verbatim>\<open>HEX_REGEX\<close>: a hash sign and exactly 3, 4, 6 or 8 hexadecimal digits.\<close>

definition isHexColorValid :: "string \<Rightarrow> bool" where
  "isHexColorValid hex =
     (case hex of
        [] \<Rightarrow> False
      | ch # ds \<Rightarrow> ch = CHR ''#'' \<and> list_all is_hex_digit ds \<and> length ds \<in> {3, 4, 6, 8})"

text \<open>
  \<^verbatim>\<open>colorNameToHex\<close>: without a document, or without a 2d context, there is no answer;
  otherwise the canvas reports the fill style it made of the normalised name.  The
  module's \<^verbatim>\<open>colorNameCache\<close> only ever stores what the canvas returned for the same
  key, so with the canvas a function it is not visible in the result.
\<close>

definition colorNameToHex :: "platform \<Rightarrow> string \<Rightarrow> string option" where
  "colorNameToHex P colorName =
     (case canvas P of
        None \<Rightarrow> None
      | Some fillStyle \<Rightarrow> Some (fillStyle (trim (toLowerCase colorName))))"

definition hexDigitVal :: "char \<Rightarrow> nat" where
  "hexDigitVal ch =
     (let n = (of_char ch :: nat)
      in if 48 \<le> n \<and> n \<le> 57 then n - 48
         else if 65 \<le> n \<and> n \<le> 70 then n - 55
         else n - 87)"

text \<open>
  \<^verbatim>\<open>parseInt(s, 16)\<close> and \<^verbatim>\<open>parseInt(s, 10)\<close> on the strings the codec passes: the
  digits up to the first character that is none, NaN when there is no digit.
\<close>

definition parseInt16 :: "string \<Rightarrow> number" where
  "parseInt16 s =
     (let ds = takeWhile is_hex_digit s
      in if ds = [] then NaN
         else to_double (of_nat (foldl (\<lambda>n ch. 16 * n + hexDigitVal ch) 0 ds)))"

definition decimal :: "string \<Rightarrow> nat" where
  "decimal ds = foldl (\<lambda>n ch. 10 * n + (of_char ch - 48)) 0 ds"

definition parseInt10 :: "string \<Rightarrow> number" where
  "parseInt10 s =
     (let ds = takeWhile is_digit s
      in if ds = [] then NaN else to_double (of_nat (decimal ds)))"

text \<open>
  \<^verbatim>\<open>parseFloat\<close> on a string of digits and dots: the longest prefix that is a decimal
  literal, NaN when there is none.
\<close>

definition parseFloat :: "string \<Rightarrow> number" where
  "parseFloat s =
     (let ip = takeWhile is_digit s; rest = dropWhile is_digit s
      in case rest of
           ch # cs \<Rightarrow>
             (if ch = CHR ''.''
              then (let fp = takeWhile is_digit cs
                    in if ip = [] \<and> fp = [] then NaN
                       else to_double (of_nat (decimal ip) + of_nat (decimal fp) / 10 ^ length fp))
              else if ip = [] then NaN else to_double (of_nat (decimal ip)))
         | [] \<Rightarrow> if ip = [] then NaN else to_double (of_nat (decimal ip)))"

text \<open>
  The branch of \<^verbatim>\<open>hexToRgb\<close> for a string that passed \<^verbatim>\<open>isHexColorValid\<close>.
\<close>

definition hexDecode :: "string \<Rightarrow> RgbColor option" where
  "hexDecode hex =
     (if hex \<noteq> [] \<and> hd hex = CHR ''#''
      then if length hex = 4 \<or> length hex = 5
           then Some \<lparr>rgb_r = parseInt16 [hex ! 1, hex ! 1],
                      rgb_g = parseInt16 [hex ! 2, hex ! 2],
                      rgb_b = parseInt16 [hex ! 3, hex ! 3],
                      rgb_a = (if length hex = 5
                               then fdiv (parseInt16 [hex ! 4, hex ! 4]) (Fin 255)
                               else Fin 1)\<rparr>
           else if length hex = 7 \<or> length hex = 9
           then Some \<lparr>rgb_r = parseInt16 (take 2 (drop 1 hex)),
                      rgb_g = parseInt16 (take 2 (drop 3 hex)),
                      rgb_b = parseInt16 (take 2 (drop 5 hex)),
                      rgb_a = (if length hex = 9
                               then fdiv (parseInt16 (take 2 (drop 7 hex))) (Fin 255)
                               else Fin 1)\<rparr>
           else None
      else None)"

text \<open>
  \<^verbatim>\<open>hexToRgb\<close>.  Its recursive call is on a string that has just passed
  \<^verbatim>\<open>isHexColorValid\<close>, so it goes straight to the decoding branch.
\<close>

definition hexToRgb :: "platform \<Rightarrow> string \<Rightarrow> RgbColor option" where
  "hexToRgb P hex =
     (if \<not> isHexColorValid hex
      then (case colorNameToHex P hex of
              Some colorHex \<Rightarrow>
                if colorHex \<noteq> [] \<and> isHexColorValid colorHex then hexDecode colorHex else None
            | None \<Rightarrow> None)
      else hexDecode hex)"

definition hsvToRgb :: "HsvColor \<Rightarrow> RgbColor" where
  "hsvToRgb hsv =
     (let h0 = fmod (hsv_h hsv) (Fin 360);
          h = (if lt h0 (Fin 0) then fadd h0 (Fin 360) else h0);
          s = hsv_s hsv; v = hsv_v hsv;
          c = fmul v s;
          x = fmul c (fsub (Fin 1) (math_abs (fsub (fmod (fdiv h (Fin 60)) (Fin 2)) (Fin 1))));
          m = fsub v c;
          (rP, gP, bP) =
            (if ge h (Fin 0) \<and> lt h (Fin 60) then (c, x, Fin 0)
             else if ge h (Fin 60) \<and> lt h (Fin 120) then (x, c, Fin 0)
             else if ge h (Fin 120) \<and> lt h (Fin 180) then (Fin 0, c, x)
             else if ge h (Fin 180) \<and> lt h (Fin 240) then (Fin 0, x, c)
             else if ge h (Fin 240) \<and> lt h (Fin 300) then (x, Fin 0, c)
             else if ge h (Fin 300) \<and> lt h (Fin 360) then (c, Fin 0, x)
             else (Fin 0, Fin 0, Fin 0))
      in \<lparr>rgb_r = math_round (fmul (fadd rP m) (Fin 255)),
          rgb_g = math_round (fmul (fadd gP m) (Fin 255)),
          rgb_b = math_round (fmul (fadd bP m) (Fin 255)),
          rgb_a = hsv_a hsv\<rparr>)"

definition rgbToHsv :: "RgbColor \<Rightarrow> HsvColor" where
  "rgbToHsv rgb =
     (let rNorm = fdiv (rgb_r rgb) (Fin 255);
          gNorm = fdiv (rgb_g rgb) (Fin 255);
          bNorm = fdiv (rgb_b rgb) (Fin 255);
          mx = math_max3 rNorm gNorm bNorm;
          mn = math_min3 rNorm gNorm bNorm;
          delta = fsub mx mn;
          h = (if \<not> seq delta (Fin 0)
               then (let h1 = (if seq mx rNorm then fmod (fdiv (fsub gNorm bNorm) delta) (Fin 6)
                               else if seq mx gNorm then fadd (fdiv (fsub bNorm rNorm) delta) (Fin 2)
                               else fadd (fdiv (fsub rNorm gNorm) delta) (Fin 4));
                         h2 = fmul h1 (Fin 60)
                     in if lt h2 (Fin 0) then fadd h2 (Fin 360) else h2)
               else Fin 0);
          s = (if seq mx (Fin 0) then Fin 0 else fdiv delta mx);
          v = mx
      in \<lparr>hsv_h = h, hsv_s = s, hsv_v = v, hsv_a = rgb_a rgb\<rparr>)"

text \<open>A decimal literal of the source denotes the double nearest to it.\<close>

definition lit :: "rat \<Rightarrow> number" where
  "lit q = to_double q"

definition sRgbToLinear :: "platform \<Rightarrow> number \<Rightarrow> number" where
  "sRgbToLinear P c =
     (let v = fdiv c (Fin 255)
      in if le v (lit 0.04045) then fdiv v (lit 12.92)
         else math_pow P (fdiv (fadd v (lit 0.055)) (lit 1.055)) (lit 2.4))"

definition linearToSRgb :: "platform \<Rightarrow> number \<Rightarrow> number" where
  "linearToSRgb P c =
     (let v = (if le c (lit 0.0031308) then fmul (lit 12.92) c
               else fsub (fmul (lit 1.055) (math_pow P c (fdiv (Fin 1) (lit 2.4)))) (lit 0.055))
      in math_max (Fin 0) (math_min (Fin 255) (math_round (fmul v (Fin 255)))))"

definition oklchToRgb :: "platform \<Rightarrow> OklchColor \<Rightarrow> RgbColor" where
  "oklchToRgb P oklch =
     (let L = oklch_l oklch; C = oklch_c oklch; H = oklch_h oklch;
          hRad = fmul H (fdiv math_PI (Fin 180));
          a' = fmul (math_cos P hRad) C;
          b' = fmul (math_sin P hRad) C;
          l_cube = fadd (fadd L (fmul (lit 0.3963377774) a')) (fmul (lit 0.2158037573) b');
          m_cube = fsub (fsub L (fmul (lit 0.1055613458) a')) (fmul (lit 0.0638541728) b');
          s_cube = fsub (fsub L (fmul (lit 0.0894841775) a')) (fmul (lit 1.291485548) b');
          l' = fmul (fmul l_cube l_cube) l_cube;
          m' = fmul (fmul m_cube m_cube) m_cube;
          s' = fmul (fmul s_cube s_cube) s_cube;
          r = fadd (fsub (fmul (lit 4.0767416621) l') (fmul (lit 3.3077115913) m'))
                (fmul (lit 0.2309699292) s');
          g = fsub (fadd (fmul (lit (- 1.2684380046)) l') (fmul (lit 2.6097574011) m'))
                (fmul (lit 0.3413193965) s');
          b = fadd (fsub (fmul (lit (- 0.0041960863)) l') (fmul (lit 0.7034186147) m'))
                (fmul (lit 1.707614701) s')
      in \<lparr>rgb_r = linearToSRgb P r, rgb_g = linearToSRgb P g, rgb_b = linearToSRgb P b,
          rgb_a = oklch_a oklch\<rparr>)"

definition rgbToOklch :: "platform \<Rightarrow> RgbColor \<Rightarrow> OklchColor" where
  "rgbToOklch P rgb =
     (let r = sRgbToLinear P (rgb_r rgb);
          g = sRgbToLinear P (rgb_g rgb);
          b = sRgbToLinear P (rgb_b rgb);
          l' = fadd (fadd (fmul (lit 0.4122214708) r) (fmul (lit 0.5363325363) g))
                 (fmul (lit 0.0514459929) b);
          m' = fadd (fadd (fmul (lit 0.2119034982) r) (fmul (lit 0.6806995451) g))
                 (fmul (lit 0.1073969566) b);
          s' = fadd (fadd (fmul (lit 0.0883024619) r) (fmul (lit 0.2817188376) g))
                 (fmul (lit 0.6299787005) b);
          l_cube = math_cbrt P l';
          m_cube = math_cbrt P m';
          s_cube = math_cbrt P s';
          L = fsub (fadd (fmul (lit 0.2104542553) l_cube) (fmul (lit 0.793617785) m_cube))
                (fmul (lit 0.0040720401) s_cube);
          a' = fadd (fsub (fmul (lit 1.9779984951) l_cube) (fmul (lit 2.428592205) m_cube))
                 (fmul (lit 0.4505937099) s_cube);
          b' = fsub (fadd (fmul (lit 0.0259040371) l_cube) (fmul (lit 0.7827717662) m_cube))
                 (fmul (lit 0.808675766) s_cube);
          C = math_sqrt P (fadd (fmul a' a') (fmul b' b'));
          h0 = fmul (math_atan2 P b' a') (fdiv (Fin 180) math_PI);
          h = (if lt h0 (Fin 0) then fadd h0 (Fin 360) else h0)
      in \<lparr>oklch_l = L, oklch_c = C, oklch_h = h, oklch_a = rgb_a rgb\<rparr>)"

subsection \<open>The functional notations\<close>

text \<open>
  The three regular expressions are anchored at both ends and their character classes
  (white space, digits and dots, the punctuation) are disjoint, so a match is found by
  reading the string once from the left; the captured groups are returned.
\<close>

definition expect :: "string \<Rightarrow> string \<Rightarrow> string option" where
  "expect p s = (if take (length p) s = p then Some (drop (length p) s) else None)"

definition optional :: "string \<Rightarrow> string \<Rightarrow> string" where
  "optional p s = (case expect p s of Some t \<Rightarrow> t | None \<Rightarrow> s)"

definition many1 :: "(char \<Rightarrow> bool) \<Rightarrow> string \<Rightarrow> (string \<times> string) option" where
  "many1 cls s = (if takeWhile cls s = [] then None else Some (takeWhile cls s, dropWhile cls s))"

definition skip_ws :: "string \<Rightarrow> string" where
  "skip_ws s = dropWhile is_space s"

definition is_num_char :: "char \<Rightarrow> bool" where
  "is_num_char ch = (is_digit ch \<or> ch = CHR ''.'')"

definition at_end :: "'a \<Rightarrow> string \<Rightarrow> 'a option" where
  "at_end x s = (if s = [] then Some x else None)"

text \<open>
  The optional last group and the closing parenthesis:
  \<^verbatim>\<open>\s*(?:SEP\s*([\d.]+)\s*)?\)$\<close>.
\<close>

definition match_tail :: "string \<Rightarrow> string \<Rightarrow> string option option" where
  "match_tail sep s =
     (let s1 = skip_ws s
      in case expect sep s1 of
           Some t \<Rightarrow> do {
             (g4, u) \<leftarrow> many1 is_num_char (skip_ws t);
             u' \<leftarrow> expect '')'' (skip_ws u);
             at_end (Some g4) u'
           }
         | None \<Rightarrow> do {
             u \<leftarrow> expect '')'' s1;
             at_end None u
           })"

text \<open>\<^verbatim>\<open>/^rgba?\(\s*(\d+)\s*,\s*(\d+)\s*,\s*(\d+)\s*(?:,\s*([\d.]+)\s*)?\)$/\<close>\<close>

definition match_RGB_REGEX :: "string \<Rightarrow> (string \<times> string \<times> string \<times> string option) option" where
  "match_RGB_REGEX s = do {
     s1 \<leftarrow> expect ''rgb'' s;
     s2 \<leftarrow> expect ''('' (optional ''a'' s1);
     (g1, s3) \<leftarrow> many1 is_digit (skip_ws s2);
     s4 \<leftarrow> expect '','' (skip_ws s3);
     (g2, s5) \<leftarrow> many1 is_digit (skip_ws s4);
     s6 \<leftarrow> expect '','' (skip_ws s5);
     (g3, s7) \<leftarrow> many1 is_digit (skip_ws s6);
     g4 \<leftarrow> match_tail '','' s7;
     Some (g1, g2, g3, g4)
   }"

text \<open>
  \<^verbatim>\<open>/^hsva?\(\s*([\d.]+)\s*,\s*([\d.]+)%?\s*,\s*([\d.]+)%?\s*(?:,\s*([\d.]+)\s*)?\)$/\<close>
\<close>

definition match_HSV_REGEX :: "string \<Rightarrow> (string \<times> string \<times> string \<times> string option) option" where
  "match_HSV_REGEX s = do {
     s1 \<leftarrow> expect ''hsv'' s;
     s2 \<leftarrow> expect ''('' (optional ''a'' s1);
     (g1, s3) \<leftarrow> many1 is_num_char (skip_ws s2);
     s4 \<leftarrow> expect '','' (skip_ws s3);
     (g2, s5) \<leftarrow> many1 is_num_char (skip_ws s4);
     s6 \<leftarrow> expect '','' (skip_ws (optional ''%'' s5));
     (g3, s7) \<leftarrow> many1 is_num_char (skip_ws s6);
     g4 \<leftarrow> match_tail '','' (optional ''%'' s7);
     Some (g1, g2, g3, g4)
   }"

text \<open>
  \<^verbatim>\<open>/^oklch\(\s*([\d.]+)\s+([\d.]+)\s+([\d.]+)\s*(?:\/\s*([\d.]+)\s*)?\)$/\<close>
\<close>

definition match_OKLCH_REGEX :: "string \<Rightarrow> (string \<times> string \<times> string \<times> string option) option" where
  "match_OKLCH_REGEX s = do {
     s1 \<leftarrow> expect ''oklch('' s;
     (g1, s2) \<leftarrow> many1 is_num_char (skip_ws s1);
     (w1, s3) \<leftarrow> many1 is_space s2;
     (g2, s4) \<leftarrow> many1 is_num_char s3;
     (w2, s5) \<leftarrow> many1 is_space s4;
     (g3, s6) \<leftarrow> many1 is_num_char s5;
     g4 \<leftarrow> match_tail ''/'' s6;
     Some (g1, g2, g3, g4)
   }"

subsection \<open>The parser\<close>

text \<open>
  The argument of \<^verbatim>\<open>parseToRgb\<close> and \<^verbatim>\<open>parseColor\<close> is a string or an object of one of
  the four colour types; the code tells the objects apart by the fields they have.
  \<open>Unrecognized\<close> stands for an object with none of the field sets, such as
  \<^verbatim>\<open>{x: 1}\<close>.
\<close>

datatype color_input =
  Str string
| Rgb RgbColor
| Hsv HsvColor
| Oklch OklchColor
| Full ColorValue
| Unrecognized

definition alpha_group :: "string option \<Rightarrow> number" where
  "alpha_group g = (case g of Some t \<Rightarrow> parseFloat t | None \<Rightarrow> Fin 1)"

definition parseToRgb :: "platform \<Rightarrow> color_input \<Rightarrow> RgbColor option" where
  "parseToRgb P color =
     (case color of
        Str str \<Rightarrow>
          if str = [] then None
          else
            (let trimmed = toLowerCase (trim str)
             in case hexToRgb P trimmed of
                  Some hexResult \<Rightarrow> Some hexResult
                | None \<Rightarrow>
             (case match_RGB_REGEX trimmed of
                Some (g1, g2, g3, g4) \<Rightarrow>
                  Some \<lparr>rgb_r = parseInt10 g1, rgb_g = parseInt10 g2, rgb_b = parseInt10 g3,
                        rgb_a = alpha_group g4\<rparr>
              | None \<Rightarrow>
             (case match_HSV_REGEX trimmed of
                Some (g1, g2, g3, g4) \<Rightarrow>
                  Some (hsvToRgb \<lparr>hsv_h = parseFloat g1,
                                   hsv_s = fdiv (parseFloat g2) (Fin 100),
                                   hsv_v = fdiv (parseFloat g3) (Fin 100),
                                   hsv_a = alpha_group g4\<rparr>)
              | None \<Rightarrow>
             (case match_OKLCH_REGEX trimmed of
                Some (g1, g2, g3, g4) \<Rightarrow>
                  Some (oklchToRgb P \<lparr>oklch_l = parseFloat g1, oklch_c = parseFloat g2,
                                       oklch_h = parseFloat g3, oklch_a = alpha_group g4\<rparr>)
              | None \<Rightarrow>
             (case colorNameToHex P trimmed of
                None \<Rightarrow> None
              | Some colorToHex \<Rightarrow>
                  if colorToHex = [] then None else hexToRgb P colorToHex)))))
      | Full cv \<Rightarrow> Some (cv_rgb cv)
      | Rgb c \<Rightarrow> Some c
      | Hsv c \<Rightarrow> Some (hsvToRgb c)
      | Oklch c \<Rightarrow> Some (oklchToRgb P c)
      | Unrecognized \<Rightarrow> None)"

definition black :: RgbColor where
  "black = \<lparr>rgb_r = Fin 0, rgb_g = Fin 0, rgb_b = Fin 0, rgb_a = Fin 1\<rparr>"

text \<open>The value \<^verbatim>\<open>parseColor\<close> builds from an RGB colour.\<close>

definition colorValueOf :: "platform \<Rightarrow> RgbColor \<Rightarrow> ColorValue" where
  "colorValueOf P rgb =
     \<lparr>cv_hex = rgbToHex P rgb, cv_rgb = rgb, cv_hsv = rgbToHsv rgb, cv_oklch = rgbToOklch P rgb\<rparr>"

type_synonym color_cache = "string \<rightharpoonup> ColorValue"

definition cacheKeyOf :: "platform \<Rightarrow> color_input \<Rightarrow> string option" where
  "cacheKeyOf P color =
     (case color of
        Str str \<Rightarrow> Some (trim (toLowerCase str))
      | Rgb c \<Rightarrow> Some (rgbToHex P c)
      | _ \<Rightarrow> None)"

text \<open>
  \<^verbatim>\<open>parseColor\<close>, with the module's \<^verbatim>\<open>parsedColorCache\<close> passed in and returned.
\<close>

definition parseColor :: "platform \<Rightarrow> color_cache \<Rightarrow> color_input \<Rightarrow> ColorValue \<times> color_cache" where
  "parseColor P cache color =
     (case color of
        Full cv \<Rightarrow> (cv, cache)
      | _ \<Rightarrow>
        (let cacheKey = cacheKeyOf P color
         in case (case cacheKey of Some k \<Rightarrow> cache k | None \<Rightarrow> None) of
              Some hit \<Rightarrow> (hit, cache)
            | None \<Rightarrow>
                (let rgb = (case parseToRgb P color of Some c \<Rightarrow> c | None \<Rightarrow> black);
                     result = colorValueOf P rgb;
                     cache1 = (case cacheKey of
                                 Some k \<Rightarrow> if k \<noteq> [] then cache(k \<mapsto> result) else cache
                               | None \<Rightarrow> cache)
                 in (result, cache1(cv_hex result \<mapsto> result)))))"






section \<open>The picker state\<close>

text \<open>
  \<^verbatim>\<open>ColorPickerRoot.vue\<close> holds the tracked HSV value, the model value \<^verbatim>\<open>color\<close>, the
  preview colour and the flag \<^verbatim>\<open>isInternalUpdate\<close>; the parse cache of the codec is
  carried along.
\<close>

record PickerState =
  hsvRef :: HsvColor
  color :: ColorValue
  previewColorRef :: ColorValue
  isInternalUpdate :: bool
  parsedColorCache :: color_cache

text \<open>
  \<^verbatim>\<open>Partial<HsvColor>\<close>: each field is present with a number, or absent.  An object in
  which a field is present with the value \<^verbatim>\<open>undefined\<close> is not represented.
\<close>

record HsvUpdate =
  upd_h :: "number option"
  upd_s :: "number option"
  upd_v :: "number option"
  upd_a :: "number option"

definition or_else :: "'a option \<Rightarrow> 'a \<Rightarrow> 'a" where
  "or_else x d = (case x of Some y \<Rightarrow> y | None \<Rightarrow> d)"

text \<open>The state when the component is set up with the model value \<open>c\<close>.\<close>

definition initState :: "platform \<Rightarrow> color_cache \<Rightarrow> ColorValue \<Rightarrow> PickerState" where
  "initState P cache c =
     (let (preview, cache1) =
            parseColor P cache (Hsv ((cv_hsv c)\<lparr>hsv_s := Fin 1, hsv_v := Fin 1\<rparr>))
      in \<lparr>hsvRef = cv_hsv c, color = c, previewColorRef = preview,
          isInternalUpdate = False, parsedColorCache = cache1\<rparr>)"

text \<open>The synchronous body of \<^verbatim>\<open>updateHsv\<close>.\<close>

definition updateHsv :: "platform \<Rightarrow> HsvUpdate \<Rightarrow> PickerState \<Rightarrow> PickerState" where
  "updateHsv P hsvUpdate st =
     (let old = hsvRef st;
          merged = \<lparr>hsv_h = or_else (upd_h hsvUpdate) (hsv_h old),
                    hsv_s = or_else (upd_s hsvUpdate) (hsv_s old),
                    hsv_v = or_else (upd_v hsvUpdate) (hsv_v old),
                    hsv_a = or_else (upd_a hsvUpdate) (hsv_a old)\<rparr>;
          newHsv = (case upd_h hsvUpdate of
                      Some hv \<Rightarrow>
                        merged\<lparr>hsv_h := math_max (Fin 0) (math_min (Fin 360) (math_round hv))\<rparr>
                    | None \<Rightarrow> merged);
          (newColor, cache1) = parseColor P (parsedColorCache st) (Hsv newHsv);
          (preview, cache2) =
            (case upd_h hsvUpdate of
               Some hv \<Rightarrow>
                 parseColor P cache1
                   (Hsv \<lparr>hsv_h = hv, hsv_s = Fin 1, hsv_v = Fin 1, hsv_a = Fin 1\<rparr>)
             | None \<Rightarrow> (previewColorRef st, cache1))
      in \<lparr>hsvRef = newHsv, color = newColor, previewColorRef = preview,
          isInternalUpdate = True, parsedColorCache = cache2\<rparr>)"

text \<open>The watcher on the model value.\<close>

definition watchColor :: "PickerState \<Rightarrow> PickerState" where
  "watchColor st =
     (if isInternalUpdate st then st
      else (let incomingHsv = cv_hsv (color st)
            in if gt (hsv_v incomingHsv) (Fin 0) \<and> gt (hsv_s incomingHsv) (Fin 0)
               then st\<lparr>hsvRef := incomingHsv\<rparr>
               else st\<lparr>hsvRef := (hsvRef st)\<lparr>hsv_a := hsv_a incomingHsv,
                                               hsv_v := hsv_v incomingHsv\<rparr>\<rparr>))"

text \<open>The callback given to \<^verbatim>\<open>nextTick\<close>.\<close>

definition nextTick :: "PickerState \<Rightarrow> PickerState" where
  "nextTick st = st\<lparr>isInternalUpdate := False\<rparr>"

text \<open>
  A call of \<^verbatim>\<open>setHsv\<close>: the body, then the watcher that the assignment to the model
  value has queued, then the reset of the flag.
\<close>

definition setHsv :: "platform \<Rightarrow> HsvUpdate \<Rightarrow> PickerState \<Rightarrow> PickerState" where
  "setHsv P hsvUpdate st = nextTick (watchColor (updateHsv P hsvUpdate st))"

text \<open>The parent writes a new model value.\<close>

definition modelWrite :: "ColorValue \<Rightarrow> PickerState \<Rightarrow> PickerState" where
  "modelWrite newVal st = watchColor (st\<lparr>color := newVal\<rparr>)"

definition setColor :: "ColorValue \<Rightarrow> PickerState \<Rightarrow> PickerState" where
  "setColor newColor st = watchColor (st\<lparr>color := newColor, hsvRef := cv_hsv newColor\<rparr>)"


section \<open>Definitions used in the statements\<close>

text \<open>
  A platform without a document, as under the unit tests: \<^verbatim>\<open>colorNameToHex\<close> has no
  canvas to ask.  The concrete instances below are stated for it; none of them depends on
  the values it gives to the functions that the standard leaves open.
\<close>

definition no_document :: platform where
  "no_document =
     \<lparr>canvas = None,
      math_pow = (\<lambda>x y. NaN), math_cbrt = (\<lambda>x. NaN), math_sqrt = (\<lambda>x. NaN),
      math_atan2 = (\<lambda>y x. NaN), math_cos = (\<lambda>x. NaN), math_sin = (\<lambda>x. NaN),
      frac_toString16 = (\<lambda>q. ''?'')\<rparr>"

text \<open>The specification's zero-padded two-digit hexadecimal form of a byte.\<close>

definition hex2 :: "nat \<Rightarrow> string" where
  "hex2 n = [hexDigit (n div 16), hexDigit (n mod 16)]"

text \<open>Updates that carry a single field.\<close>

definition only_h :: "number \<Rightarrow> HsvUpdate" where
  "only_h x = \<lparr>upd_h = Some x, upd_s = None, upd_v = None, upd_a = None\<rparr>"

definition only_s :: "number \<Rightarrow> HsvUpdate" where
  "only_s x = \<lparr>upd_h = None, upd_s = Some x, upd_v = None, upd_a = None\<rparr>"

definition only_v :: "number \<Rightarrow> HsvUpdate" where
  "only_v x = \<lparr>upd_h = None, upd_s = None, upd_v = Some x, upd_a = None\<rparr>"

text \<open>Some colour values, as \<^verbatim>\<open>parseColor\<close> builds them.\<close>

definition red :: ColorValue where
  "red = colorValueOf no_document \<lparr>rgb_r = Fin 255, rgb_g = Fin 0, rgb_b = Fin 0, rgb_a = Fin 1\<rparr>"

definition gray :: ColorValue where
  "gray = colorValueOf no_document \<lparr>rgb_r = Fin 128, rgb_g = Fin 128, rgb_b = Fin 128, rgb_a = Fin 1\<rparr>"

definition blue :: ColorValue where
  "blue = colorValueOf no_document \<lparr>rgb_r = Fin 0, rgb_g = Fin 0, rgb_b = Fin 255, rgb_a = Fin 1\<rparr>"

text \<open>
  A picker set up on red with an empty parse cache, and the same picker after the hue,
  saturation and value have been set to \<open>200\<close>, \<open>0.5\<close> and \<open>0.5\<close>.
\<close>

definition picker_red :: PickerState where
  "picker_red = initState no_document Map.empty red"

definition picker_teal :: PickerState where
  "picker_teal = setHsv no_document
     \<lparr>upd_h = Some (Fin 200), upd_s = Some (Fin (1 / 2)), upd_v = Some (Fin (1 / 2)), upd_a = None\<rparr>
     picker_red"


section \<open>Intermediate quantities of the HSV conversions\<close>

text \<open>The values that \<open>rgbToHsv\<close> and \<open>hsvToRgb\<close> compute on the way, on finite
  operands, named so that the proofs can speak about them.\<close>

text \<open>The unit in which the rounding errors of the round trip are counted.\<close>

definition tiny :: rat where
  "tiny = 1 / 2 ^ 40"

text \<open>A channel divided by 255, as \<open>rgbToHsv\<close> normalises it.\<close>

definition unit8 :: "nat \<Rightarrow> rat" where
  "unit8 n = fl (of_nat n / 255)"

text \<open>The remainder of \<open>fmod\<close> on finite operands, before rounding.\<close>

definition fmodr :: "rat \<Rightarrow> rat \<Rightarrow> rat" where
  "fmodr x y = x - y * of_int (trunc (x / y))"

text \<open>The factor \<open>1 - |(h / 60) % 2 - 1|\<close> of \<open>hsvToRgb\<close>.\<close>

definition tri :: "rat \<Rightarrow> rat" where
  "tri h = fl (1 - \<bar>fl (fmodr (fl (h / 60)) 2 - 1)\<bar>)"

text \<open>One output channel of \<open>hsvToRgb\<close>: \<open>Math.round((p + m) * 255)\<close>.\<close>

definition chan :: "rat \<Rightarrow> rat \<Rightarrow> rat" where
  "chan p m = of_int \<lfloor>fl (fl (p + m) * 255) + 1 / 2\<rfloor>"

text \<open>The sector chain of \<open>hsvToRgb\<close>.\<close>

definition primes :: "rat \<Rightarrow> rat \<Rightarrow> rat \<Rightarrow> rat \<times> rat \<times> rat" where
  "primes h c x =
     (if h < 60 then (c, x, 0)
      else if h < 120 then (x, c, 0)
      else if h < 180 then (0, c, x)
      else if h < 240 then (0, x, c)
      else if h < 300 then (x, 0, c)
      else (c, 0, x))"

text \<open>The difference \<open>max - min\<close> of \<open>rgbToHsv\<close>.\<close>

definition delta8 :: "nat \<Rightarrow> nat \<Rightarrow> rat" where
  "delta8 M m = fl (unit8 M - unit8 m)"

text \<open>A quotient \<open>(a - b) / delta\<close> of \<open>rgbToHsv\<close>.\<close>

definition quot8 :: "nat \<Rightarrow> nat \<Rightarrow> nat \<Rightarrow> nat \<Rightarrow> rat" where
  "quot8 A B M m = fl (fl (unit8 A - unit8 B) / delta8 M m)"

text \<open>The hue computed by \<open>rgbToHsv\<close> from integer channels.\<close>

definition hue8 :: "nat \<Rightarrow> nat \<Rightarrow> nat \<Rightarrow> rat" where
  "hue8 R G B =
     (let M = max (max R G) B; m = min (min R G) B
      in if M = m then 0
         else (let h1 = (if R = M then quot8 G B M m
                         else if G = M then fl (quot8 B R M m + 2)
                         else fl (quot8 R G M m + 4));
                   h2 = fl (h1 * 60)
               in if h2 < 0 then fl (h2 + 360) else h2))"

text \<open>The saturation computed by \<open>rgbToHsv\<close> from integer channels.\<close>

definition sat8 :: "nat \<Rightarrow> nat \<Rightarrow> nat \<Rightarrow> rat" where
  "sat8 R G B =
     (let M = max (max R G) B; m = min (min R G) B
      in if M = 0 then 0 else fl (delta8 M m / unit8 M))"

text \<open>The saturation, the chroma \<open>v * s\<close> and the base \<open>v - c\<close> in terms of the largest and the smallest channel.\<close>

definition sat_of :: "nat \<Rightarrow> nat \<Rightarrow> rat" where
  "sat_of M m = fl (delta8 M m / unit8 M)"

definition chroma_of :: "nat \<Rightarrow> nat \<Rightarrow> rat" where
  "chroma_of M m = fl (unit8 M * sat_of M m)"

definition base_of :: "nat \<Rightarrow> nat \<Rightarrow> rat" where
  "base_of M m = fl (unit8 M - chroma_of M m)"

section \<open>Rounding to a double\<close>


lemma pow2_powi: "pow2 e = 2 powi e"
  by (simp add: pow2_def power_int_def field_simps)

lemma pow2_pos [simp]: "0 < pow2 e"
  by (simp add: pow2_powi)

lemma pow2_nz [simp]: "pow2 e \<noteq> 0"
  by (simp add: pow2_powi)

lemma pow2_nonneg [simp]: "0 \<le> pow2 e"
  by (simp add: pow2_powi)

lemma pow2_add: "pow2 (a + b) = pow2 a * pow2 b"
  by (simp add: pow2_powi power_int_add)

lemma pow2_mono: "a \<le> b \<Longrightarrow> pow2 a \<le> pow2 b"
  by (simp add: pow2_powi power_int_increasing)

lemma pow2_nat: "pow2 (int n) = 2 ^ n"
  by (simp add: pow2_def)

lemma ilog2_bounds:
  assumes "0 < x"
  shows "pow2 (ilog2 x) \<le> x" and "x < pow2 (ilog2 x + 1)"
proof -
  show "pow2 (ilog2 x) \<le> x"
  proof (cases "1 \<le> x")
    case True
    define n where "n = \<lfloor>x\<rfloor>"
    have n1: "1 \<le> n" using True by (simp add: n_def le_floor_iff)
    then have b: "2 ^ nat (bitlen n - 1) \<le> n" using bitlen_bounds[of n] by simp
    have bl: "1 \<le> bitlen n" using n1 by (simp add: bitlen_alt_def)
    have "pow2 (bitlen n - 1) = of_int (2 ^ nat (bitlen n - 1))"
      using bl by (simp add: pow2_def)
    also have "\<dots> \<le> of_int n" using b by (simp only: of_int_le_iff)
    also have "\<dots> \<le> x" by (simp add: n_def)
    finally show ?thesis using True by (simp add: ilog2_def n_def)
  next
    case False
    define m where "m = \<lceil>1 / x\<rceil> - 1"
    have y: "1 < 1 / x" using False assms by (simp add: field_simps)
    then have m1: "1 \<le> m" unfolding m_def by (simp add: less_ceiling_iff)
    have "1 / x \<le> of_int (m + 1)" by (simp add: m_def)
    also have "of_int (m + 1) \<le> (of_int (2 ^ nat (bitlen m)) :: rat)"
      using bitlen_bounds[of m] m1 by (simp only: of_int_le_iff) linarith
    finally have "1 / x \<le> 2 ^ nat (bitlen m)" by simp
    then have "1 / 2 ^ nat (bitlen m) \<le> x" using assms
      by (simp add: field_simps)
    moreover have "pow2 (- bitlen m) = 1 / 2 ^ nat (bitlen m)"
      using bitlen_nonneg[of m] by (auto simp add: pow2_def)
    ultimately show ?thesis using False by (simp add: ilog2_def m_def)
  qed
  show "x < pow2 (ilog2 x + 1)"
  proof (cases "1 \<le> x")
    case True
    define n where "n = \<lfloor>x\<rfloor>"
    have n1: "1 \<le> n" using True by (simp add: n_def le_floor_iff)
    have bl: "1 \<le> bitlen n" using n1 by (simp add: bitlen_alt_def)
    have "x < of_int (n + 1)" unfolding n_def by simp linarith
    also have "of_int (n + 1) \<le> (of_int (2 ^ nat (bitlen n)) :: rat)"
      using bitlen_bounds[of n] n1 by (simp only: of_int_le_iff) linarith
    also have "\<dots> = pow2 (bitlen n)" using bl by (simp add: pow2_def)
    finally show ?thesis using True by (simp add: ilog2_def n_def)
  next
    case False
    define m where "m = \<lceil>1 / x\<rceil> - 1"
    have y: "1 < 1 / x" using False assms by (simp add: field_simps)
    then have m1: "1 \<le> m" unfolding m_def by (simp add: less_ceiling_iff)
    have bl: "1 \<le> bitlen m" using m1 by (simp add: bitlen_alt_def)
    have "(of_int (2 ^ nat (bitlen m - 1)) :: rat) \<le> of_int m"
      using bitlen_bounds[of m] m1 by (simp only: of_int_le_iff)
    also have "of_int m < 1 / x" unfolding m_def
      using ceiling_correct[of "1 / x"] by simp
    finally have "2 ^ nat (bitlen m - 1) < 1 / x" by simp
    then have "x < 1 / 2 ^ nat (bitlen m - 1)" using assms
      by (simp add: field_simps)
    moreover have "pow2 (- bitlen m + 1) = 1 / 2 ^ nat (bitlen m - 1)"
      using bl by (auto simp add: pow2_def nat_diff_distrib)
    ultimately show ?thesis using False by (simp add: ilog2_def m_def)
  qed
qed

lemma round_even_err: "\<bar>of_int (round_even x) - x\<bar> \<le> 1 / 2"
proof -
  have "of_int \<lfloor>x\<rfloor> \<le> x" "x < of_int \<lfloor>x\<rfloor> + 1" by linarith+
  then show ?thesis
    by (auto simp add: round_even_def Let_def abs_le_iff)
qed

lemma round_even_of_int [simp]: "round_even (of_int n) = n"
  by (simp add: round_even_def)

lemma round_even_bounds: "\<lfloor>x\<rfloor> \<le> round_even x" "round_even x \<le> \<lfloor>x\<rfloor> + 1"
  by (auto simp add: round_even_def Let_def)

lemma round_even_mono: "x \<le> y \<Longrightarrow> round_even x \<le> round_even y"
proof -
  assume xy: "x \<le> y"
  then have f: "\<lfloor>x\<rfloor> \<le> \<lfloor>y\<rfloor>" by (rule floor_mono)
  show ?thesis
  proof (cases "\<lfloor>x\<rfloor> = \<lfloor>y\<rfloor>")
    case True
    then show ?thesis using xy by (auto simp add: round_even_def Let_def)
  next
    case False
    then have "\<lfloor>x\<rfloor> + 1 \<le> \<lfloor>y\<rfloor>" using f by linarith
    then show ?thesis using round_even_bounds(2)[of x] round_even_bounds(1)[of y] by linarith
  qed
qed

lemma round_even_neg: "round_even (- x) = - round_even x"
proof (cases "of_int \<lfloor>x\<rfloor> = x")
  case True
  then obtain n where "x = of_int n" by metis
  then have "- x = of_int (- n)" by simp
  then show ?thesis unfolding \<open>x = of_int n\<close> by (simp only: round_even_of_int)
next
  case False
  have fl1: "of_int \<lfloor>x\<rfloor> < x" using False by (simp add: less_le)
  have fl2: "x < of_int \<lfloor>x\<rfloor> + 1" by linarith
  have "\<lfloor>- x\<rfloor> = - \<lfloor>x\<rfloor> - 1"
  proof (rule floor_unique)
    show "of_int (- \<lfloor>x\<rfloor> - 1) \<le> - x" using fl2 by simp
    show "- x < of_int (- \<lfloor>x\<rfloor> - 1) + 1" using fl1 by simp
  qed
  then show ?thesis
    by (auto simp add: round_even_def Let_def)
qed

lemma pow2_strict_mono: "a < b \<Longrightarrow> pow2 a < pow2 b"
  by (simp add: pow2_powi power_int_strict_increasing)

lemma pow2_le_cancel: "pow2 a \<le> pow2 b \<Longrightarrow> a \<le> b"
  using pow2_strict_mono[of b a] by (cases "a \<le> b") simp_all

lemma pow2_less_cancel: "pow2 a < pow2 b \<Longrightarrow> a < b"
  using pow2_mono[of b a] by (cases "a < b") simp_all

lemma ilog2_le: "0 < x \<Longrightarrow> x < pow2 (k + 1) \<Longrightarrow> ilog2 x \<le> k"
  using ilog2_bounds(1)[of x] pow2_less_cancel[of "ilog2 x" "k + 1"] by simp

lemma ilog2_ge: "0 < x \<Longrightarrow> pow2 k \<le> x \<Longrightarrow> k \<le> ilog2 x"
  using ilog2_bounds(2)[of x] pow2_less_cancel[of k "ilog2 x + 1"] by simp

lemma ilog2_mono: "0 < x \<Longrightarrow> x \<le> y \<Longrightarrow> ilog2 x \<le> ilog2 y"
  using ilog2_bounds(1)[of x] ilog2_ge[of y "ilog2 x"] by simp

lemma quantum_pos [simp]: "0 < quantum x"
  by (simp add: quantum_def)

lemma quantum_nz [simp]: "quantum x \<noteq> 0"
  by (simp add: quantum_def)

lemma quantum_nonneg [simp]: "0 \<le> quantum x"
  by (simp add: quantum_def)

lemma quantum_neg [simp]: "quantum (- x) = quantum x"
  by (simp add: quantum_def)

lemma fl_zero [simp]: "fl 0 = 0"
  by (simp add: fl_def)

lemma fl_neg: "fl (- x) = - fl x"
  by (simp add: fl_def round_even_neg)

lemma fl_err: "\<bar>fl x - x\<bar> \<le> quantum x / 2"
proof (cases "x = 0")
  case True
  then show ?thesis by (simp add: less_imp_le)
next
  case False
  have q: "0 < quantum x" by simp
  have "fl x - x = (of_int (round_even (x / quantum x)) - x / quantum x) * quantum x"
    using False q by (simp add: fl_def field_simps)
  then have "\<bar>fl x - x\<bar> = \<bar>of_int (round_even (x / quantum x)) - x / quantum x\<bar> * quantum x"
    using q by (simp add: abs_mult)
  also have "\<dots> \<le> 1 / 2 * quantum x"
    using round_even_err[of "x / quantum x"] q by (intro mult_right_mono) simp_all
  finally show ?thesis by simp
qed

lemma fl_nonneg: "0 \<le> x \<Longrightarrow> 0 \<le> fl x"
proof -
  assume "0 \<le> x"
  then have "0 \<le> x / quantum x" by (simp add: less_imp_le)
  then have "0 \<le> \<lfloor>x / quantum x\<rfloor>" by simp
  then have "0 \<le> round_even (x / quantum x)"
    using round_even_bounds(1)[of "x / quantum x"] by linarith
  then show ?thesis by (simp add: fl_def less_imp_le)
qed

lemma fl_nonpos: "x \<le> 0 \<Longrightarrow> fl x \<le> 0"
  using fl_nonneg[of "- x"] by (simp add: fl_neg)

lemma quantum_eq: "0 < x \<Longrightarrow> quantum x = pow2 (max (ilog2 x) (- 1022) - 52)"
  by (simp add: quantum_def)

lemma fl_mono_pos:
  assumes "0 < x" "x \<le> y"
  shows "fl x \<le> fl y"
proof -
  define ex where "ex = max (ilog2 x) (- 1022)"
  define ey where "ey = max (ilog2 y) (- 1022)"
  have y0: "0 < y" using assms by simp
  have qx: "quantum x = pow2 (ex - 52)" using assms by (simp add: quantum_eq ex_def)
  have qy: "quantum y = pow2 (ey - 52)" using y0 by (simp add: quantum_eq ey_def)
  have le: "ex \<le> ey" using ilog2_mono[OF assms] by (simp add: ex_def ey_def)
  have fx: "fl x = of_int (round_even (x / pow2 (ex - 52))) * pow2 (ex - 52)"
    using assms qx by (simp add: fl_def)
  have fy: "fl y = of_int (round_even (y / pow2 (ey - 52))) * pow2 (ey - 52)"
    using y0 qy by (simp add: fl_def)
  show ?thesis
  proof (cases "ex = ey")
    case True
    have "x / pow2 (ey - 52) \<le> y / pow2 (ey - 52)"
      using assms by (simp add: divide_right_mono less_imp_le)
    then have "round_even (x / pow2 (ey - 52)) \<le> round_even (y / pow2 (ey - 52))"
      by (rule round_even_mono)
    then show ?thesis unfolding fx fy True
      by (intro mult_right_mono) (simp_all add: less_imp_le)
  next
    case False
    then have lt: "ex + 1 \<le> ey" using le by simp
    then have eyy: "ey = ilog2 y" unfolding ey_def ex_def by linarith
    have "x < pow2 (ilog2 x + 1)" using ilog2_bounds(2)[OF assms(1)] .
    also have "\<dots> \<le> pow2 (ex + 1)" by (rule pow2_mono) (simp add: ex_def)
    finally have "x / pow2 (ex - 52) \<le> pow2 (ex + 1) / pow2 (ex - 52)"
      by (simp add: divide_right_mono less_imp_le)
    also have "pow2 (ex + 1) / pow2 (ex - 52) = of_int (2 ^ 53)"
      using pow2_add[of "ex - 52" 53] by (simp add: pow2_nat[of 53, simplified] field_simps)
    finally have "round_even (x / pow2 (ex - 52)) \<le> round_even (of_int (2 ^ 53))"
      by (rule round_even_mono)
    then have "round_even (x / pow2 (ex - 52)) \<le> 2 ^ 53"
      by (simp only: round_even_of_int)
    then have "(of_int (round_even (x / pow2 (ex - 52))) :: rat) \<le> of_int (2 ^ 53)"
      by (simp only: of_int_le_iff)
    then have "fl x \<le> of_int (2 ^ 53) * pow2 (ex - 52)" unfolding fx
      by (intro mult_right_mono) (simp_all add: less_imp_le)
    also have "\<dots> = pow2 (ex + 1)"
      using pow2_add[of "ex - 52" 53] by (simp add: pow2_nat[of 53, simplified] field_simps)
    also have "\<dots> \<le> pow2 ey" using lt by (rule pow2_mono)
    finally have a: "fl x \<le> pow2 ey" .
    have "pow2 ey \<le> y" using ilog2_bounds(1)[OF y0] eyy by simp
    then have "pow2 ey / pow2 (ey - 52) \<le> y / pow2 (ey - 52)"
      by (simp add: divide_right_mono less_imp_le)
    moreover have "pow2 ey / pow2 (ey - 52) = of_int (2 ^ 52)"
      using pow2_add[of "ey - 52" 52] by (simp add: pow2_nat[of 52, simplified] field_simps)
    ultimately have "round_even (of_int (2 ^ 52)) \<le> round_even (y / pow2 (ey - 52))"
      by (intro round_even_mono) simp
    then have "2 ^ 52 \<le> round_even (y / pow2 (ey - 52))"
      by (simp only: round_even_of_int)
    then have "(of_int (2 ^ 52) :: rat) \<le> of_int (round_even (y / pow2 (ey - 52)))"
      by (simp only: of_int_le_iff)
    then have "of_int (2 ^ 52) * pow2 (ey - 52) \<le> fl y" unfolding fy
      by (intro mult_right_mono) (simp_all add: less_imp_le)
    moreover have "of_int (2 ^ 52) * pow2 (ey - 52) = pow2 ey"
      using pow2_add[of "ey - 52" 52] by (simp add: pow2_nat[of 52, simplified] field_simps)
    ultimately show ?thesis using a by simp
  qed
qed

lemma fl_mono: "x \<le> y \<Longrightarrow> fl x \<le> fl y"
proof -
  assume xy: "x \<le> y"
  consider "0 < x" | "x \<le> 0" "0 \<le> y" | "y < 0" by linarith
  then show ?thesis
  proof cases
    case 1
    then show ?thesis using xy by (rule fl_mono_pos)
  next
    case 2
    then show ?thesis using fl_nonpos[of x] fl_nonneg[of y] by simp
  next
    case 3
    then have "fl (- y) \<le> fl (- x)" using xy by (intro fl_mono_pos) simp_all
    then show ?thesis by (simp add: fl_neg)
  qed
qed

lemma fl_exact:
  assumes "\<bar>m\<bar> < 2 ^ 53" "- 1074 \<le> k"
  shows "fl (of_int m * pow2 k) = of_int m * pow2 k"
proof (cases "m = 0")
  case True
  then show ?thesis by simp
next
  case False
  define x where "x = of_int m * pow2 k"
  define q where "q = max (ilog2 \<bar>x\<bar>) (- 1022) - 52"
  have ax: "\<bar>x\<bar> = of_int \<bar>m\<bar> * pow2 k" by (simp add: x_def abs_mult)
  have x0: "0 < \<bar>x\<bar>" using False by (simp add: x_def)
  have "of_int \<bar>m\<bar> < (of_int (2 ^ 53) :: rat)" using assms(1) by (simp only: of_int_less_iff)
  then have "\<bar>x\<bar> < of_int (2 ^ 53) * pow2 k" unfolding ax
    by (intro mult_strict_right_mono) simp_all
  also have "\<dots> = pow2 (k + 52 + 1)"
    using pow2_add[of k 53] by (simp add: pow2_nat[of 53, simplified] ac_simps)
  finally have "ilog2 \<bar>x\<bar> \<le> k + 52" using ilog2_le[OF x0] by simp
  then have qk: "q \<le> k" using assms(2) by (simp add: q_def)
  have "pow2 k = pow2 (k - q) * pow2 q" using pow2_add[of "k - q" q] by simp
  moreover have "pow2 (k - q) = of_int (2 ^ nat (k - q))" using qk by (simp add: pow2_def)
  ultimately have "x / pow2 q = of_int (m * 2 ^ nat (k - q))" by (simp add: x_def)
  then have "round_even (x / pow2 q) = m * 2 ^ nat (k - q)"
    by (simp only: round_even_of_int)
  then have "of_int (round_even (x / pow2 q)) * pow2 q = x / pow2 q * pow2 q"
    using \<open>x / pow2 q = of_int (m * 2 ^ nat (k - q))\<close> by simp
  then have "fl x = x" using x0 by (simp add: fl_def quantum_def q_def)
  then show ?thesis by (simp add: x_def)
qed

lemma fl_of_int: "\<bar>n\<bar> < 2 ^ 53 \<Longrightarrow> fl (of_int n) = of_int n"
  using fl_exact[of n 0] by (simp add: pow2_def)

lemma fl_err_abs:
  assumes "\<bar>x\<bar> \<le> pow2 k" "- 1022 \<le> k"
  shows "\<bar>fl x - x\<bar> \<le> pow2 (k - 53)"
proof (cases "x = 0")
  case True
  then show ?thesis by simp
next
  case False
  then have x0: "0 < \<bar>x\<bar>" by simp
  have "pow2 (ilog2 \<bar>x\<bar>) \<le> pow2 k" using ilog2_bounds(1)[OF x0] assms(1) by simp
  then have "ilog2 \<bar>x\<bar> \<le> k" by (rule pow2_le_cancel)
  then have "quantum x \<le> pow2 (k - 52)" unfolding quantum_def
    using assms(2) by (intro pow2_mono) simp
  moreover have "pow2 (k - 52) = 2 * pow2 (k - 53)"
    using pow2_add[of 1 "k - 53"] by (simp add: pow2_def)
  ultimately show ?thesis using fl_err[of x] by simp
qed

lemma fl_err_rel:
  assumes "pow2 (- 1022) \<le> \<bar>x\<bar>"
  shows "\<bar>fl x - x\<bar> \<le> \<bar>x\<bar> * pow2 (- 53)"
proof -
  have x0: "0 < \<bar>x\<bar>" using assms pow2_pos[of "- 1022"] by linarith
  have "- 1022 \<le> ilog2 \<bar>x\<bar>" using ilog2_ge[OF x0 assms] .
  then have "quantum x = pow2 (ilog2 \<bar>x\<bar> - 52)" by (simp add: quantum_def max_def)
  also have "\<dots> = pow2 (ilog2 \<bar>x\<bar>) * pow2 (- 52)"
    using pow2_add[of "ilog2 \<bar>x\<bar>" "- 52"] by simp
  also have "\<dots> \<le> \<bar>x\<bar> * pow2 (- 52)"
    using ilog2_bounds(1)[OF x0] by (intro mult_right_mono) simp_all
  also have "pow2 (- 52) = 2 * pow2 (- 53)" by (simp add: pow2_def)
  finally show ?thesis using fl_err[of x] by simp
qed

lemma fl_abs_le:
  assumes "\<bar>x\<bar> \<le> of_int n" "\<bar>n\<bar> < 2 ^ 53"
  shows "\<bar>fl x\<bar> \<le> of_int n"
proof -
  have "fl x \<le> fl (of_int n)" using assms(1) by (intro fl_mono) simp
  moreover have "fl (- of_int n) \<le> fl x" using assms(1) by (intro fl_mono) simp
  ultimately show ?thesis using fl_of_int[OF assms(2)] by (simp add: fl_neg abs_le_iff)
qed

lemma to_double_Fin:
  assumes "\<bar>x\<bar> \<le> 2 ^ 52"
  shows "to_double x = Fin (fl x)"
proof -
  have "\<bar>fl x\<bar> \<le> of_int (2 ^ 52)" using assms by (intro fl_abs_le) simp_all
  then have b: "\<bar>fl x\<bar> < pow2 (52 + 1)" by (simp add: pow2_def)
  have "fl x \<noteq> 0 \<Longrightarrow> ilog2 \<bar>fl x\<bar> \<le> 52" using ilog2_le[OF _ b] by simp
  then show ?thesis by (auto simp add: to_double_def Let_def)
qed

section \<open>The hexadecimal form\<close>

lemma toHex_small: "n < 16 \<Longrightarrow> toHex n = [hexDigit n]"
  by (simp add: toHex.simps)

lemma toHex_byte: "16 \<le> n \<Longrightarrow> n < 256 \<Longrightarrow> toHex n = hex2 n"
  by (subst toHex.simps) (simp add: toHex_small hex2_def)

lemma hexDigit_0: "hexDigit 0 = CHR ''0''"
  by (simp add: hexDigit_def)

lemma padStart_toHex: "n < 256 \<Longrightarrow> padStart 2 CHR ''0'' (toHex n) = hex2 n"
proof (cases "n < 16")
  case True
  then show ?thesis by (simp add: toHex_small padStart_def hex2_def hexDigit_0)
next
  case False
  assume "n < 256"
  then show ?thesis using False by (simp add: toHex_byte padStart_def hex2_def)
qed

lemma toString16_nat: "toString16 P (Fin (of_nat n)) = toHex n"
  by (simp add: toString16_def)

lemma channel_hex: "n < 256 \<Longrightarrow> padStart 2 CHR ''0'' (toString16 P (Fin (of_nat n))) = hex2 n"
  by (simp add: toString16_nat padStart_toHex)

lemma alpha_round:
  assumes "0 \<le> x" "x < 1"
  shows "math_round (fmul (Fin x) (Fin 255)) = Fin (of_nat (nat \<lfloor>fl (x * 255) + 1 / 2\<rfloor>))"
    and "nat \<lfloor>fl (x * 255) + 1 / 2\<rfloor> < 256"
proof -
  have b: "\<bar>x * 255\<bar> \<le> of_int 255" using assms by (simp add: abs_le_iff)
  then have "\<bar>fl (x * 255)\<bar> \<le> of_int 255" by (rule fl_abs_le) simp
  then have u: "fl (x * 255) \<le> 255" by (simp add: abs_le_iff)
  have l: "0 \<le> fl (x * 255)" using assms by (intro fl_nonneg) simp
  have td: "to_double (x * 255) = Fin (fl (x * 255))"
    using b by (intro to_double_Fin) simp
  have f0: "0 \<le> \<lfloor>fl (x * 255) + 1 / 2\<rfloor>" using l by simp
  have "fl (x * 255) + 1 / 2 < of_int 256" using u by simp
  then have f1: "\<lfloor>fl (x * 255) + 1 / 2\<rfloor> < 256" by (simp only: floor_less_iff)
  show "math_round (fmul (Fin x) (Fin 255)) = Fin (of_nat (nat \<lfloor>fl (x * 255) + 1 / 2\<rfloor>))"
    using f0 by (simp add: td)
  show "nat \<lfloor>fl (x * 255) + 1 / 2\<rfloor> < 256" using f0 f1 by linarith
qed

text \<open>
  Claim C1, as amended.  For every RGB colour with integer channels in \<open>[0,255]\<close> and alpha
  \<open>a\<close> in \<open>[0,1]\<close>, \<^verbatim>\<open>rgbToHex\<close> returns the hash sign and the three channels as
  zero-padded two-digit hexadecimal numbers, followed, when \<open>a < 1\<close> (and so also when
  \<open>a = 0\<close>), by the byte \<^verbatim>\<open>Math.round(a * 255)\<close> in the same form, and by nothing when
  \<open>a = 1\<close>.
\<close>

theorem rgbToHex_format:
  assumes "R < 256" "G < 256" "B < 256" "0 \<le> x" "x \<le> 1"
  shows "rgbToHex P \<lparr>rgb_r = Fin (of_nat R), rgb_g = Fin (of_nat G), rgb_b = Fin (of_nat B),
                      rgb_a = Fin x\<rparr>
         = ''#'' @ hex2 R @ hex2 G @ hex2 B
             @ (if x < 1 then hex2 (nat \<lfloor>fl (x * 255) + 1 / 2\<rfloor>) else '''')"
proof (cases "x < 1")
  case True
  show ?thesis
    using True assms(1-3) alpha_round[OF assms(4) True]
    by (simp add: rgbToHex_def Let_def channel_hex del: fmul.simps math_round.simps)
next
  case False
  then show ?thesis using assms(1-3) by (simp add: rgbToHex_def Let_def channel_hex)
qed

text \<open>
  An instance of C1: half-transparent \<open>(255, 0, 10)\<close> is \<^verbatim>\<open>#ff000a80\<close>.
\<close>

theorem rgbToHex_format_witness:
  "rgbToHex no_document \<lparr>rgb_r = Fin (of_nat 255), rgb_g = Fin (of_nat 0), rgb_b = Fin (of_nat 10),
                      rgb_a = Fin (1 / 2)\<rparr> = ''#ff000a80''"
proof -
  have "rgbToHex no_document \<lparr>rgb_r = Fin (of_nat 255), rgb_g = Fin (of_nat 0),
                               rgb_b = Fin (of_nat 10), rgb_a = Fin (1 / 2)\<rparr>
        = ''#'' @ hex2 255 @ hex2 0 @ hex2 10
            @ (if (1 / 2 :: rat) < 1 then hex2 (nat \<lfloor>fl (1 / 2 * 255) + 1 / 2\<rfloor>) else '''')"
    by (rule rgbToHex_format) simp_all
  also have "\<dots> = ''#ff000a80''" by code_simp
  finally show ?thesis .
qed

text \<open>
  Claim C1 as written asks for \<^verbatim>\<open>#00000000\<close> whenever alpha is 0.  The function keeps
  the channels: fully transparent white is \<^verbatim>\<open>#ffffff00\<close>, as the unit test
  ``should handle transparency in hex'' expects.
\<close>

theorem rgbToHex_transparent_counterexample:
  "rgbToHex no_document \<lparr>rgb_r = Fin 255, rgb_g = Fin 255, rgb_b = Fin 255, rgb_a = Fin 0\<rparr>
     = ''#ffffff00''"
  by code_simp

section \<open>The picker: tracked hue, watcher and preview\<close>

lemma parseColor_Hsv:
  "parseColor P cache (Hsv x) =
     (colorValueOf P (hsvToRgb x),
      cache(rgbToHex P (hsvToRgb x) \<mapsto> colorValueOf P (hsvToRgb x)))"
  by (simp add: parseColor_def cacheKeyOf_def parseToRgb_def Let_def colorValueOf_def)

lemma updateHsv_flag: "isInternalUpdate (updateHsv P u st)"
  by (simp add: updateHsv_def Let_def split: prod.splits option.splits)

lemma setHsv_hsvRef:
  "hsvRef (setHsv P u st) =
     \<lparr>hsv_h = (case upd_h u of
                 Some hv \<Rightarrow> math_max (Fin 0) (math_min (Fin 360) (math_round hv))
               | None \<Rightarrow> hsv_h (hsvRef st)),
      hsv_s = or_else (upd_s u) (hsv_s (hsvRef st)),
      hsv_v = or_else (upd_v u) (hsv_v (hsvRef st)),
      hsv_a = or_else (upd_a u) (hsv_a (hsvRef st))\<rparr>"
proof -
  have "watchColor (updateHsv P u st) = updateHsv P u st"
    using updateHsv_flag[of P u st] by (simp add: watchColor_def)
  then show ?thesis
    by (simp add: setHsv_def nextTick_def updateHsv_def Let_def parseColor_Hsv or_else_def
        split: option.splits)
qed

lemma setHsv_flag: "\<not> isInternalUpdate (setHsv P u st)"
  by (simp add: setHsv_def nextTick_def)

lemma watch_skipped: "watchColor (updateHsv P u st) = updateHsv P u st"
  using updateHsv_flag[of P u st] by (simp add: watchColor_def)

lemma setHsv_alt: "setHsv P u st = (updateHsv P u st)\<lparr>isInternalUpdate := False\<rparr>"
  by (simp add: setHsv_def watch_skipped nextTick_def)

lemma updateHsv_color:
  "color (updateHsv P u st) = colorValueOf P (hsvToRgb (hsvRef (updateHsv P u st)))"
  by (simp add: updateHsv_def Let_def parseColor_Hsv split: option.splits)

lemma updateHsv_preview:
  "previewColorRef (updateHsv P u st) =
     (case upd_h u of
        Some hv \<Rightarrow>
          colorValueOf P (hsvToRgb \<lparr>hsv_h = hv, hsv_s = Fin 1, hsv_v = Fin 1, hsv_a = Fin 1\<rparr>)
      | None \<Rightarrow> previewColorRef st)"
  by (simp add: updateHsv_def Let_def parseColor_Hsv split: option.splits)

lemma setHsv_color:
  "color (setHsv P u st) = colorValueOf P (hsvToRgb (hsvRef (setHsv P u st)))"
  by (simp add: setHsv_alt updateHsv_color)

lemma setHsv_preview:
  "upd_h u = Some hv \<Longrightarrow>
   previewColorRef (setHsv P u st) =
     colorValueOf P (hsvToRgb \<lparr>hsv_h = hv, hsv_s = Fin 1, hsv_v = Fin 1, hsv_a = Fin 1\<rparr>)"
  by (simp add: setHsv_alt updateHsv_preview)

lemma rgbToHsv_red:
  "rgbToHsv \<lparr>rgb_r = Fin 255, rgb_g = Fin 0, rgb_b = Fin 0, rgb_a = Fin 1\<rparr>
     = \<lparr>hsv_h = Fin 0, hsv_s = Fin 1, hsv_v = Fin 1, hsv_a = Fin 1\<rparr>"
  by code_simp

lemma picker_red_hsv:
  "hsvRef picker_red = \<lparr>hsv_h = Fin 0, hsv_s = Fin 1, hsv_v = Fin 1, hsv_a = Fin 1\<rparr>"
  by (simp add: picker_red_def initState_def parseColor_Hsv red_def colorValueOf_def rgbToHsv_red)

lemma clamp_200: "math_max (Fin 0) (math_min (Fin 360) (math_round (Fin 200))) = Fin 200"
  by code_simp

lemma picker_teal_hsv:
  "hsvRef picker_teal = \<lparr>hsv_h = Fin 200, hsv_s = Fin (1 / 2), hsv_v = Fin (1 / 2), hsv_a = Fin 1\<rparr>"
  by (simp add: picker_teal_def setHsv_hsvRef clamp_200 or_else_def picker_red_hsv
      del: math_round.simps)

text \<open>
  Claim C3.  From a picker whose tracked HSV is \<open>(200, 0.5, 0.5)\<close> with any alpha,
  \<^verbatim>\<open>setHsv({v: 0})\<close> followed by \<^verbatim>\<open>setHsv({v: 0.5})\<close>, with nothing in between, leaves the
  tracked hue at 200 and the tracked saturation at 0.5.
\<close>

theorem hue_survives_zero_value:
  assumes "hsvRef st = \<lparr>hsv_h = Fin 200, hsv_s = Fin (1 / 2), hsv_v = Fin (1 / 2), hsv_a = al\<rparr>"
  shows "hsv_h (hsvRef (setHsv P (only_v (Fin (1 / 2))) (setHsv P (only_v (Fin 0)) st))) = Fin 200
       \<and> hsv_s (hsvRef (setHsv P (only_v (Fin (1 / 2))) (setHsv P (only_v (Fin 0)) st))) = Fin (1 / 2)"
  using assms by (simp add: setHsv_hsvRef only_v_def or_else_def)

text \<open>An instance of C3 on the picker \<open>picker_teal\<close>.\<close>

theorem hue_survives_zero_value_witness:
  "hsvRef picker_teal = \<lparr>hsv_h = Fin 200, hsv_s = Fin (1 / 2), hsv_v = Fin (1 / 2), hsv_a = Fin 1\<rparr>
   \<and> hsv_h (hsvRef (setHsv no_document (only_v (Fin (1 / 2)))
                (setHsv no_document (only_v (Fin 0)) picker_teal))) = Fin 200
   \<and> hsv_s (hsvRef (setHsv no_document (only_v (Fin (1 / 2)))
                (setHsv no_document (only_v (Fin 0)) picker_teal))) = Fin (1 / 2)"
  using hue_survives_zero_value[OF picker_teal_hsv, of no_document] picker_teal_hsv by simp

lemma setColor_hsvRef: "hsvRef (setColor c st) = cv_hsv c"
  by (simp add: setColor_def watchColor_def Let_def)

text \<open>
  Claim C4, as amended.  When the model value is replaced while the flag
  \<^verbatim>\<open>isInternalUpdate\<close> is clear, the watcher adopts the incoming HSV as it is if its value
  and saturation are both positive; otherwise it keeps the tracked hue and saturation and
  takes only value and alpha from the incoming colour.  A replacement through
  \<^verbatim>\<open>setColor\<close> sets the tracked HSV to the incoming one in every case.
\<close>

theorem external_change_rule:
  "(\<not> isInternalUpdate st \<longrightarrow>
      hsvRef (modelWrite c st) =
        (if gt (hsv_v (cv_hsv c)) (Fin 0) \<and> gt (hsv_s (cv_hsv c)) (Fin 0)
         then cv_hsv c
         else \<lparr>hsv_h = hsv_h (hsvRef st), hsv_s = hsv_s (hsvRef st),
               hsv_v = hsv_v (cv_hsv c), hsv_a = hsv_a (cv_hsv c)\<rparr>))
   \<and> hsvRef (setColor c st) = cv_hsv c"
  by (simp add: modelWrite_def watchColor_def Let_def setColor_hsvRef)

lemma gray_hsv:
  "cv_hsv gray = \<lparr>hsv_h = Fin 0, hsv_s = Fin 0,
     hsv_v = Fin (4521260802379792 / 9007199254740992), hsv_a = Fin 1\<rparr>"
proof -
  have "rgbToHsv \<lparr>rgb_r = Fin 128, rgb_g = Fin 128, rgb_b = Fin 128, rgb_a = Fin 1\<rparr>
        = \<lparr>hsv_h = Fin 0, hsv_s = Fin 0,
           hsv_v = Fin (4521260802379792 / 9007199254740992), hsv_a = Fin 1\<rparr>"
    by code_simp
  then show ?thesis by (simp add: gray_def colorValueOf_def)
qed

lemma blue_hsv: "cv_hsv blue = \<lparr>hsv_h = Fin 240, hsv_s = Fin 1, hsv_v = Fin 1, hsv_a = Fin 1\<rparr>"
proof -
  have "rgbToHsv \<lparr>rgb_r = Fin 0, rgb_g = Fin 0, rgb_b = Fin 255, rgb_a = Fin 1\<rparr>
        = \<lparr>hsv_h = Fin 240, hsv_s = Fin 1, hsv_v = Fin 1, hsv_a = Fin 1\<rparr>"
    by code_simp
  then show ?thesis by (simp add: blue_def colorValueOf_def)
qed

text \<open>
  Instances of C4 on the picker \<open>picker_teal\<close>, whose flag is clear: gray written to the
  model keeps hue 200 and saturation 0.5, blue is adopted as it is, and gray passed to
  \<^verbatim>\<open>setColor\<close> replaces hue and saturation.
\<close>

theorem external_change_rule_witness:
  "\<not> isInternalUpdate picker_teal
   \<and> hsvRef (modelWrite gray picker_teal) =
       \<lparr>hsv_h = Fin 200, hsv_s = Fin (1 / 2),
        hsv_v = Fin (4521260802379792 / 9007199254740992), hsv_a = Fin 1\<rparr>
   \<and> hsvRef (modelWrite blue picker_teal) =
       \<lparr>hsv_h = Fin 240, hsv_s = Fin 1, hsv_v = Fin 1, hsv_a = Fin 1\<rparr>
   \<and> hsvRef (setColor gray picker_teal) =
       \<lparr>hsv_h = Fin 0, hsv_s = Fin 0,
        hsv_v = Fin (4521260802379792 / 9007199254740992), hsv_a = Fin 1\<rparr>"
proof -
  have f: "\<not> isInternalUpdate picker_teal" by (simp add: picker_teal_def setHsv_flag)
  show ?thesis
    using f external_change_rule[of picker_teal gray] external_change_rule[of picker_teal blue]
    by (simp add: gray_hsv blue_hsv picker_teal_hsv gt_def)
qed

lemma teal_black_flag:
  "isInternalUpdate (updateHsv no_document (only_v (Fin 0)) picker_teal)"
  by (simp add: updateHsv_flag)

lemma teal_black_hsv:
  "hsvRef (updateHsv no_document (only_v (Fin 0)) picker_teal)
     = \<lparr>hsv_h = Fin 200, hsv_s = Fin (1 / 2), hsv_v = Fin 0, hsv_a = Fin 1\<rparr>"
  by (simp add: updateHsv_def Let_def parseColor_Hsv only_v_def or_else_def picker_teal_hsv)

text \<open>
  Claim C4 as written fails twice.  The flag is set from the start of \<^verbatim>\<open>updateHsv\<close> to
  the end of its tick, and \<^verbatim>\<open>emit("change")\<close> runs in between: when blue is written to
  the model before the tick of \<^verbatim>\<open>setHsv({v: 0})\<close> has ended, the watcher skips it and the
  tracked HSV stays \<open>(200, 0.5, 0, 1)\<close>, although value and saturation of blue are
  positive.  And gray passed to \<^verbatim>\<open>setColor\<close> has saturation 0, yet the tracked hue and
  saturation go from \<open>(200, 0.5)\<close> to \<open>(0, 0)\<close>.
\<close>

theorem external_change_rule_counterexample:
  "gt (hsv_v (cv_hsv blue)) (Fin 0) \<and> gt (hsv_s (cv_hsv blue)) (Fin 0)
   \<and> hsvRef (nextTick (modelWrite blue (updateHsv no_document (only_v (Fin 0)) picker_teal)))
       = \<lparr>hsv_h = Fin 200, hsv_s = Fin (1 / 2), hsv_v = Fin 0, hsv_a = Fin 1\<rparr>
   \<and> hsv_s (cv_hsv gray) = Fin 0
   \<and> hsv_h (hsvRef picker_teal) = Fin 200 \<and> hsv_s (hsvRef picker_teal) = Fin (1 / 2)
   \<and> hsv_h (hsvRef (setColor gray picker_teal)) = Fin 0
   \<and> hsv_s (hsvRef (setColor gray picker_teal)) = Fin 0"
  using teal_black_flag
  by (simp add: blue_hsv gray_hsv gt_def nextTick_def modelWrite_def watchColor_def
      teal_black_hsv picker_teal_hsv setColor_hsvRef)

text \<open>
  Claim C9.  A call of \<^verbatim>\<open>setHsv\<close> without a hue leaves the preview colour as it was; so
  a call of \<^verbatim>\<open>setHsv\<close> that changes the preview colour carries a hue.
\<close>

theorem preview_frame:
  assumes "upd_h u = None"
  shows "previewColorRef (setHsv P u st) = previewColorRef st"
proof -
  have "watchColor (updateHsv P u st) = updateHsv P u st"
    using updateHsv_flag[of P u st] by (simp add: watchColor_def)
  then show ?thesis using assms
    by (simp add: setHsv_def nextTick_def updateHsv_def Let_def parseColor_Hsv)
qed

text \<open>An instance of C9: \<^verbatim>\<open>setHsv({s: 0.2})\<close> on the picker \<open>picker_red\<close>.\<close>

theorem preview_frame_witness:
  "upd_h (only_s (lit 0.2)) = None
   \<and> previewColorRef (setHsv no_document (only_s (lit 0.2)) picker_red) = previewColorRef picker_red"
  using preview_frame[of "only_s (lit 0.2)" no_document picker_red] by (simp add: only_s_def)

section \<open>The parser and its cache\<close>

lemma parseColor_again:
  "fst (parseColor P (snd (parseColor P cache x)) x) = fst (parseColor P cache x)"
  by (cases x) (auto simp add: parseColor_def cacheKeyOf_def Let_def split: option.splits)

text \<open>
  Claim C10.  An object that has the fields \<^verbatim>\<open>hex\<close> and \<^verbatim>\<open>rgb\<close> is returned as it is,
  none of its four representations is looked at and the cache is not touched; so
  \<^verbatim>\<open>parseColor(parseColor(x))\<close> is \<^verbatim>\<open>parseColor(x)\<close> for every input, the cache being the
  one the inner call has left.
\<close>

theorem parseColor_idempotent:
  "parseColor P cache (Full cv) = (cv, cache)
   \<and> fst (parseColor P (snd (parseColor P cache x)) (Full (fst (parseColor P cache x))))
       = fst (parseColor P (snd (parseColor P cache x)) x)"
  by (simp add: parseColor_again) (simp add: parseColor_def)
















section \<open>The preview colour\<close>

lemma math_min_int: "math_min (Fin (of_int i)) (Fin (of_int j)) = Fin (of_int (min i j))"
  by (simp add: math_min_def min_def)

lemma math_max_int: "math_max (Fin (of_int i)) (Fin (of_int j)) = Fin (of_int (max i j))"
  by (simp add: math_max_def max_def)

lemma clamp_finite:
  "math_max (Fin 0) (math_min (Fin 360) (math_round (Fin q)))
     = Fin (of_int (max 0 (min 360 \<lfloor>q + 1 / 2\<rfloor>)))"
proof -
  have "math_min (Fin 360) (math_round (Fin q)) = Fin (of_int (min 360 \<lfloor>q + 1 / 2\<rfloor>))"
    using math_min_int[of 360 "\<lfloor>q + 1 / 2\<rfloor>"] by simp
  then show ?thesis
    using math_max_int[of 0 "min 360 \<lfloor>q + 1 / 2\<rfloor>"] by simp
qed

lemma clamp_integer:
  assumes "0 \<le> n" "n \<le> 360"
  shows "math_max (Fin 0) (math_min (Fin 360) (math_round (Fin (of_int n)))) = Fin (of_int n)"
proof -
  have "\<lfloor>(of_int n :: rat) + 1 / 2\<rfloor> = n" by linarith
  then have "max 0 (min 360 \<lfloor>(of_int n :: rat) + 1 / 2\<rfloor>) = n" using assms by simp
  then show ?thesis by (simp only: clamp_finite)
qed

text \<open>
  Claim C5, as amended.  After a call of \<^verbatim>\<open>setHsv\<close> with a hue \<open>h\<close>: the tracked hue is
  \<^verbatim>\<open>Math.round(h)\<close> clamped into \<open>[0,360]\<close>; the colour is the parse of the tracked HSV; the
  preview colour is the parse of \<open>(h, 1, 1, 1)\<close> with the hue as it was passed, neither
  rounded nor clamped, which is the parse of the tracked hue when \<open>h\<close> is an integer in
  \<open>[0,360]\<close>.
\<close>

theorem setHsv_with_hue:
  assumes "upd_h u = Some hv"
  shows "hsv_h (hsvRef (setHsv P u st)) = math_max (Fin 0) (math_min (Fin 360) (math_round hv))
       \<and> (\<forall>q. hv = Fin q \<longrightarrow>
              hsv_h (hsvRef (setHsv P u st)) = Fin (of_int (max 0 (min 360 \<lfloor>q + 1 / 2\<rfloor>))))
       \<and> color (setHsv P u st) = fst (parseColor P c1 (Hsv (hsvRef (setHsv P u st))))
       \<and> previewColorRef (setHsv P u st) =
             fst (parseColor P c2
                    (Hsv \<lparr>hsv_h = hv, hsv_s = Fin 1, hsv_v = Fin 1, hsv_a = Fin 1\<rparr>))
       \<and> (\<forall>n. hv = Fin (of_int n) \<and> 0 \<le> n \<and> n \<le> 360 \<longrightarrow>
              previewColorRef (setHsv P u st) =
                fst (parseColor P c2
                       (Hsv \<lparr>hsv_h = hsv_h (hsvRef (setHsv P u st)),
                              hsv_s = Fin 1, hsv_v = Fin 1, hsv_a = Fin 1\<rparr>)))"
proof -
  have h: "hsv_h (hsvRef (setHsv P u st)) = math_max (Fin 0) (math_min (Fin 360) (math_round hv))"
    using assms by (simp add: setHsv_hsvRef)
  have hq: "hv = Fin q \<longrightarrow>
      hsv_h (hsvRef (setHsv P u st)) = Fin (of_int (max 0 (min 360 \<lfloor>q + 1 / 2\<rfloor>)))" for q
  proof
    assume "hv = Fin q"
    then show "hsv_h (hsvRef (setHsv P u st)) = Fin (of_int (max 0 (min 360 \<lfloor>q + 1 / 2\<rfloor>)))"
      using h by (simp only: clamp_finite)
  qed
  have c: "color (setHsv P u st) = fst (parseColor P c1 (Hsv (hsvRef (setHsv P u st))))"
    by (simp add: setHsv_color parseColor_Hsv)
  have p: "previewColorRef (setHsv P u st) =
             fst (parseColor P c2
                    (Hsv \<lparr>hsv_h = hv, hsv_s = Fin 1, hsv_v = Fin 1, hsv_a = Fin 1\<rparr>))"
    using assms by (simp add: setHsv_preview parseColor_Hsv)
  have pn: "hv = Fin (of_int n) \<and> 0 \<le> n \<and> n \<le> 360 \<longrightarrow>
              previewColorRef (setHsv P u st) =
                fst (parseColor P c2
                       (Hsv \<lparr>hsv_h = hsv_h (hsvRef (setHsv P u st)),
                              hsv_s = Fin 1, hsv_v = Fin 1, hsv_a = Fin 1\<rparr>))" for n
  proof
    assume a: "hv = Fin (of_int n) \<and> 0 \<le> n \<and> n \<le> 360"
    then have "hsv_h (hsvRef (setHsv P u st)) = hv"
      using h clamp_integer[of n] by simp
    then show "previewColorRef (setHsv P u st) =
                fst (parseColor P c2
                       (Hsv \<lparr>hsv_h = hsv_h (hsvRef (setHsv P u st)),
                              hsv_s = Fin 1, hsv_v = Fin 1, hsv_a = Fin 1\<rparr>))"
      using p by simp
  qed
  show ?thesis using h hq c p pn by blast
qed

lemma hsvToRgb_90:
  "hsvToRgb \<lparr>hsv_h = Fin 90, hsv_s = Fin 1, hsv_v = Fin 1, hsv_a = Fin 1\<rparr>
     = \<lparr>rgb_r = Fin 128, rgb_g = Fin 255, rgb_b = Fin 0, rgb_a = Fin 1\<rparr>"
  by code_simp

lemma rgbToHsv_lime:
  "rgbToHsv \<lparr>rgb_r = Fin 128, rgb_g = Fin 255, rgb_b = Fin 0, rgb_a = Fin 1\<rparr>
     = \<lparr>hsv_h = Fin (790613537525519 / 8796093022208), hsv_s = Fin 1, hsv_v = Fin 1, hsv_a = Fin 1\<rparr>"
  by code_simp

lemma clamp_90: "math_max (Fin 0) (math_min (Fin 360) (math_round (Fin 90))) = Fin 90"
  by code_simp

text \<open>
  An instance of C5: after \<^verbatim>\<open>setHsv({h: 90})\<close> the tracked hue is 90, the preview colour
  is \<open>(128, 255, 0)\<close>, and the HSV of the preview colour, recomputed from these channels, has
  the hue \<open>89.88...\<close>.
\<close>

theorem setHsv_with_hue_witness:
  "upd_h (only_h (Fin 90)) = Some (Fin 90)
   \<and> hsv_h (hsvRef (setHsv no_document (only_h (Fin 90)) picker_red)) = Fin 90
   \<and> cv_rgb (previewColorRef (setHsv no_document (only_h (Fin 90)) picker_red))
       = \<lparr>rgb_r = Fin 128, rgb_g = Fin 255, rgb_b = Fin 0, rgb_a = Fin 1\<rparr>
   \<and> cv_hsv (previewColorRef (setHsv no_document (only_h (Fin 90)) picker_red))
       = \<lparr>hsv_h = Fin (790613537525519 / 8796093022208), hsv_s = Fin 1, hsv_v = Fin 1,
          hsv_a = Fin 1\<rparr>"
proof -
  have u: "upd_h (only_h (Fin 90)) = Some (Fin 90)" by (simp add: only_h_def)
  note w = setHsv_with_hue[OF u, of no_document picker_red Map.empty Map.empty]
  have "hsv_h (hsvRef (setHsv no_document (only_h (Fin 90)) picker_red)) = Fin 90"
    using w by (simp only: clamp_90)
  moreover have "previewColorRef (setHsv no_document (only_h (Fin 90)) picker_red)
      = colorValueOf no_document \<lparr>rgb_r = Fin 128, rgb_g = Fin 255, rgb_b = Fin 0, rgb_a = Fin 1\<rparr>"
    using w by (simp only: parseColor_Hsv fst_conv hsvToRgb_90)
  ultimately show ?thesis using u by (simp add: colorValueOf_def rgbToHsv_lime)
qed

lemma hsvToRgb_90_5:
  "hsvToRgb \<lparr>hsv_h = Fin (181 / 2), hsv_s = Fin 1, hsv_v = Fin 1, hsv_a = Fin 1\<rparr>
     = \<lparr>rgb_r = Fin 125, rgb_g = Fin 255, rgb_b = Fin 0, rgb_a = Fin 1\<rparr>"
  by code_simp

lemma hsvToRgb_91:
  "hsvToRgb \<lparr>hsv_h = Fin 91, hsv_s = Fin 1, hsv_v = Fin 1, hsv_a = Fin 1\<rparr>
     = \<lparr>rgb_r = Fin 123, rgb_g = Fin 255, rgb_b = Fin 0, rgb_a = Fin 1\<rparr>"
  by code_simp

lemma clamp_90_5: "math_max (Fin 0) (math_min (Fin 360) (math_round (Fin (181 / 2)))) = Fin 91"
  by code_simp

text \<open>
  Claim C5 as written fails twice.  After \<^verbatim>\<open>setHsv({h: 90.5})\<close> the tracked hue is 91 and
  its parse is \<open>(123, 255, 0)\<close>, but the preview colour is \<open>(125, 255, 0)\<close>, the parse of
  90.5.  And after \<^verbatim>\<open>setHsv({h: 90})\<close> the HSV of the preview colour is not
  \<open>(90, 1, 1, 1)\<close>.
\<close>

theorem setHsv_preview_counterexample:
  "cv_rgb (previewColorRef (setHsv no_document (only_h (Fin (181 / 2))) picker_red))
     = \<lparr>rgb_r = Fin 125, rgb_g = Fin 255, rgb_b = Fin 0, rgb_a = Fin 1\<rparr>
   \<and> cv_rgb (fst (parseColor no_document Map.empty
          (Hsv \<lparr>hsv_h = hsv_h (hsvRef (setHsv no_document (only_h (Fin (181 / 2))) picker_red)),
                 hsv_s = Fin 1, hsv_v = Fin 1, hsv_a = Fin 1\<rparr>)))
     = \<lparr>rgb_r = Fin 123, rgb_g = Fin 255, rgb_b = Fin 0, rgb_a = Fin 1\<rparr>
   \<and> cv_hsv (previewColorRef (setHsv no_document (only_h (Fin 90)) picker_red))
     \<noteq> \<lparr>hsv_h = Fin 90, hsv_s = Fin 1, hsv_v = Fin 1, hsv_a = Fin 1\<rparr>"
  by (simp add: setHsv_preview setHsv_hsvRef only_h_def parseColor_Hsv colorValueOf_def
      hsvToRgb_90_5 hsvToRgb_91 hsvToRgb_90 rgbToHsv_lime clamp_90_5 del: math_round.simps)









section \<open>The HSV round trip\<close>

lemma tiny_pos: "0 < tiny"
  by (simp add: tiny_def)

lemma tiny_small: "tiny \<le> 1 / 1000000000000"
  by (simp add: tiny_def)

lemma fl_tiny:
  assumes "\<bar>x\<bar> \<le> 512"
  shows "\<bar>fl x - x\<bar> \<le> tiny"
proof -
  have "\<bar>x\<bar> \<le> pow2 9" using assms by (simp add: pow2_def)
  then have "\<bar>fl x - x\<bar> \<le> pow2 (9 - 53)" by (rule fl_err_abs) simp
  also have "pow2 (9 - 53) \<le> tiny" by (simp add: pow2_def tiny_def)
  finally show ?thesis .
qed

lemma fl_nat: "n < 2 ^ 53 \<Longrightarrow> fl (of_nat n) = of_nat n"
  using fl_of_int[of "int n"] by simp

lemma fl_numeral [simp]:
  "fl 1 = 1" "fl 2 = 2" "fl 4 = 4" "fl 6 = 6" "fl 60 = 60" "fl 120 = 120" "fl 180 = 180"
  "fl 240 = 240" "fl 300 = 300" "fl 360 = 360" "fl 255 = 255" "fl 3 = 3" "fl 5 = 5"
  "fl (- 1) = - 1" "fl (- 60) = - 60"
  using fl_of_int[of 1] fl_of_int[of 2] fl_of_int[of 4] fl_of_int[of 6] fl_of_int[of 60]
    fl_of_int[of 120] fl_of_int[of 180] fl_of_int[of 240] fl_of_int[of 300] fl_of_int[of 360]
    fl_of_int[of 255] fl_of_int[of 3] fl_of_int[of 5] fl_of_int[of "- 1"] fl_of_int[of "- 60"]
  by simp_all

lemma fl_le_int: "x \<le> of_int n \<Longrightarrow> \<bar>n\<bar> < 2 ^ 53 \<Longrightarrow> fl x \<le> of_int n"
  using fl_mono[of x "of_int n"] fl_of_int[of n] by simp

lemma fl_ge_int: "of_int n \<le> x \<Longrightarrow> \<bar>n\<bar> < 2 ^ 53 \<Longrightarrow> of_int n \<le> fl x"
  using fl_mono[of "of_int n" x] fl_of_int[of n] by simp

lemma unit8_close: "n \<le> 255 \<Longrightarrow> \<bar>unit8 n - of_nat n / 255\<bar> \<le> tiny"
  unfolding unit8_def by (rule fl_tiny) simp

lemma unit8_0 [simp]: "unit8 0 = 0"
  by (simp add: unit8_def)

lemma unit8_255 [simp]: "unit8 255 = 1"
  by (simp add: unit8_def)

lemma unit8_mono: "a \<le> b \<Longrightarrow> unit8 a \<le> unit8 b"
  unfolding unit8_def by (rule fl_mono) (simp add: divide_right_mono)

lemma unit8_nonneg: "0 \<le> unit8 n"
  unfolding unit8_def by (rule fl_nonneg) simp

lemma unit8_le1: "n \<le> 255 \<Longrightarrow> unit8 n \<le> 1"
  using unit8_mono[of n 255] by simp

lemma unit8_strict:
  assumes "a < b" "b \<le> 255"
  shows "unit8 a < unit8 b"
proof -
  have "(of_nat a :: rat) + 1 \<le> of_nat b" using assms(1) by (simp add: of_nat_less_iff flip: of_nat_Suc)
  then have g: "of_nat a / 255 + 1 / 255 \<le> (of_nat b / 255 :: rat)" by simp
  have "\<bar>unit8 a - of_nat a / 255\<bar> \<le> tiny" using assms by (intro unit8_close) simp
  moreover have "\<bar>unit8 b - of_nat b / 255\<bar> \<le> tiny" using assms by (intro unit8_close)
  ultimately show ?thesis using g tiny_small by linarith
qed

lemma unit8_eq_iff: "a \<le> 255 \<Longrightarrow> b \<le> 255 \<Longrightarrow> unit8 a = unit8 b \<longleftrightarrow> a = b"
  using unit8_strict[of a b] unit8_strict[of b a] by (cases a b rule: linorder_cases) auto

lemma unit8_le_iff: "a \<le> 255 \<Longrightarrow> b \<le> 255 \<Longrightarrow> unit8 a \<le> unit8 b \<longleftrightarrow> a \<le> b"
  using unit8_strict[of b a] unit8_mono[of a b] by (cases "a \<le> b") auto

lemma unit8_less_iff: "a \<le> 255 \<Longrightarrow> b \<le> 255 \<Longrightarrow> unit8 a < unit8 b \<longleftrightarrow> a < b"
  using unit8_le_iff[of b a] by auto

lemma unit8_max: "max (unit8 a) (unit8 b) = unit8 (max a b)"
  using unit8_mono[of a b] unit8_mono[of b a] by (cases "a \<le> b") (simp_all add: max_def)

lemma unit8_min: "min (unit8 a) (unit8 b) = unit8 (min a b)"
  using unit8_mono[of a b] unit8_mono[of b a] by (cases "a \<le> b") (simp_all add: min_def)

lemma unit8_eq_0_iff: "n \<le> 255 \<Longrightarrow> unit8 n = 0 \<longleftrightarrow> n = 0"
  using unit8_eq_iff[of n 0] by simp





lemma small_to_double: "\<bar>x\<bar> \<le> 1000000 \<Longrightarrow> to_double x = Fin (fl x)"
  by (rule to_double_Fin) simp

lemma fl_bound: "\<bar>x\<bar> \<le> of_nat n \<Longrightarrow> n < 2 ^ 53 \<Longrightarrow> \<bar>fl x\<bar> \<le> of_nat n"
  using fl_abs_le[of x "int n"] by simp

lemma fmodr_id: "0 \<le> x \<Longrightarrow> x < y \<Longrightarrow> fmodr x y = x"
proof -
  assume a: "0 \<le> x" "x < y"
  then have "0 \<le> x / y" "x / y < 1" by simp_all
  then have "\<lfloor>x / y\<rfloor> = 0" by linarith
  then show ?thesis using \<open>0 \<le> x / y\<close> by (simp add: fmodr_def trunc_def)
qed

lemma fmodr_id_abs: "\<bar>x\<bar> < y \<Longrightarrow> fmodr x y = x"
proof -
  assume a: "\<bar>x\<bar> < y"
  then have y: "0 < y" by linarith
  have b: "- 1 < x / y" "x / y < 1" using a y by (simp_all add: field_simps)
  have "trunc (x / y) = 0"
  proof (cases "0 \<le> x / y")
    case True
    then have "\<lfloor>x / y\<rfloor> = 0" using b by linarith
    then show ?thesis using True by (simp add: trunc_def)
  next
    case False
    then have "\<lceil>x / y\<rceil> = 0" using b by linarith
    then show ?thesis using False by (simp add: trunc_def)
  qed
  then show ?thesis by (simp add: fmodr_def)
qed

lemma fmod_Fin: "y \<noteq> 0 \<Longrightarrow> fmod (Fin x) (Fin y) = Fin (fmodr x y)"
  by (simp add: fmodr_def)

lemma fmodr_2_range:
  assumes "0 \<le> x"
  shows "0 \<le> fmodr x 2" "fmodr x 2 < 2"
proof -
  have f: "of_int \<lfloor>x / 2\<rfloor> \<le> x / 2" "x / 2 < of_int \<lfloor>x / 2\<rfloor> + 1" by linarith+
  have e: "fmodr x 2 = x - 2 * of_int \<lfloor>x / 2\<rfloor>" using assms by (simp add: fmodr_def trunc_def)
  show "0 \<le> fmodr x 2" unfolding e using f by linarith
  show "fmodr x 2 < 2" unfolding e using f by linarith
qed

lemma abs_mult_le: "\<bar>a\<bar> \<le> A \<Longrightarrow> \<bar>b\<bar> \<le> B \<Longrightarrow> \<bar>a * b\<bar> \<le> A * (B :: rat)"
  by (simp add: abs_mult mult_mono)

lemma fl_b4: "\<bar>x\<bar> \<le> 4 \<Longrightarrow> \<bar>fl x\<bar> \<le> 4"
  using fl_bound[of x 4] by simp

lemma fl_b6: "\<bar>x\<bar> \<le> 6 \<Longrightarrow> \<bar>fl x\<bar> \<le> 6"
  using fl_bound[of x 6] by simp

lemma fl_b10: "\<bar>x\<bar> \<le> 10 \<Longrightarrow> \<bar>fl x\<bar> \<le> 10"
  using fl_bound[of x 10] by simp

lemma fl_b1: "\<bar>x\<bar> \<le> 1 \<Longrightarrow> \<bar>fl x\<bar> \<le> 1"
  using fl_bound[of x 1] by simp

lemma chan_Fin:
  assumes "\<bar>p\<bar> \<le> 4" "\<bar>m\<bar> \<le> 6"
  shows "math_round (fmul (fadd (Fin p) (Fin m)) (Fin 255)) = Fin (chan p m)"
proof -
  have a: "\<bar>p + m\<bar> \<le> 10" using assms by linarith
  then have b: "\<bar>fl (p + m)\<bar> \<le> 10" by (rule fl_b10)
  have "\<bar>fl (p + m) * 255\<bar> \<le> 10 * 255" by (rule abs_mult_le[OF b]) simp
  then have c: "\<bar>fl (p + m) * 255\<bar> \<le> 1000000" by simp
  have "fadd (Fin p) (Fin m) = Fin (fl (p + m))"
    using a by (simp add: small_to_double)
  then show ?thesis using c by (simp add: small_to_double chan_def)
qed

lemma hsvToRgb_Fin:
  assumes "0 \<le> h" "h < 360" "\<bar>s\<bar> \<le> 2" "\<bar>v\<bar> \<le> 2"
  shows "hsvToRgb \<lparr>hsv_h = Fin h, hsv_s = Fin s, hsv_v = Fin v, hsv_a = al\<rparr> =
     (let c = fl (v * s); x = fl (c * tri h); m = fl (v - c);
          (rP, gP, bP) = primes h c x
      in \<lparr>rgb_r = Fin (chan rP m), rgb_g = Fin (chan gP m), rgb_b = Fin (chan bP m), rgb_a = al\<rparr>)"
proof -
  define c where "c = fl (v * s)"
  define t where "t = fl (h / 60)"
  define w where "w = fl (fmodr t 2 - 1)"
  define f where "f = fl (1 - \<bar>w\<bar>)"
  define x where "x = fl (c * f)"
  define m where "m = fl (v - c)"
  have vs: "\<bar>v * s\<bar> \<le> 4" using abs_mult_le[OF assms(4,3)] by simp
  then have cb: "\<bar>c\<bar> \<le> 4" unfolding c_def by (rule fl_b4)
  have e1: "fmod (Fin h) (Fin 360) = Fin h"
    using assms by (simp add: fmod_Fin fmodr_id del: fmod.simps)
  have e2: "fmul (Fin v) (Fin s) = Fin c" using vs by (simp add: small_to_double c_def)
  have h60: "0 \<le> h / 60" "h / 60 \<le> 6" using assms by simp_all
  have t0: "0 \<le> t" unfolding t_def using h60 by (intro fl_nonneg)
  have t6: "t \<le> 6" unfolding t_def using fl_le_int[of "h / 60" 6] h60 by simp
  have e3: "fdiv (Fin h) (Fin 60) = Fin t" using h60 by (simp add: small_to_double t_def)
  have e4: "fmod (Fin t) (Fin 2) = Fin (fmodr t 2)" by (simp add: fmod_Fin del: fmod.simps)
  have fm: "\<bar>fmodr t 2 - 1\<bar> \<le> 1" using fmodr_2_range[OF t0] by linarith
  then have wb: "\<bar>w\<bar> \<le> 1" unfolding w_def by (rule fl_b1)
  have e5: "fsub (Fin (fmodr t 2)) (Fin 1) = Fin w" using fm by (simp add: small_to_double w_def)
  have f1: "\<bar>1 - \<bar>w\<bar>\<bar> \<le> 1" using wb by linarith
  then have fb: "\<bar>f\<bar> \<le> 1" unfolding f_def by (rule fl_b1)
  have e6: "fsub (Fin 1) (math_abs (Fin w)) = Fin f" using f1 by (simp add: small_to_double f_def)
  have cf: "\<bar>c * f\<bar> \<le> 4" using abs_mult_le[OF cb fb] by simp
  then have xb: "\<bar>x\<bar> \<le> 4" unfolding x_def by (rule fl_b4)
  have e7: "fmul (Fin c) (Fin f) = Fin x" using cf by (simp add: small_to_double x_def)
  have vc: "\<bar>v - c\<bar> \<le> 6" using assms(4) cb by linarith
  then have mb: "\<bar>m\<bar> \<le> 6" unfolding m_def by (rule fl_b6)
  have e8: "fsub (Fin v) (Fin c) = Fin m" using vc by (simp add: small_to_double m_def)
  have tr: "tri h = f" by (simp add: tri_def f_def w_def t_def)
  have ch0: "math_round (fmul (fadd (Fin 0) (Fin m)) (Fin 255)) = Fin (chan 0 m)"
    by (rule chan_Fin) (use mb in simp_all)
  note ch = chan_Fin[OF cb mb] chan_Fin[OF xb mb] ch0
  have "hsvToRgb \<lparr>hsv_h = Fin h, hsv_s = Fin s, hsv_v = Fin v, hsv_a = al\<rparr> =
     (case primes h c x of (rP, gP, bP) \<Rightarrow>
        \<lparr>rgb_r = Fin (chan rP m), rgb_g = Fin (chan gP m), rgb_b = Fin (chan bP m), rgb_a = al\<rparr>)"
    using assms(1,2)
    by (simp add: hsvToRgb_def Let_def e1 e2 e3 e4 e5 e6 e7 e8 ch primes_def ge_def
        del: fadd.simps fsub.simps fmul.simps fdiv.simps fmod.simps math_round.simps math_abs.simps)
  then show ?thesis by (simp add: Let_def c_def[symmetric] tr x_def[symmetric] m_def[symmetric])
qed





lemma diff8_close:
  assumes "A \<le> 255" "B \<le> 255"
  shows "\<bar>fl (unit8 A - unit8 B) - (of_nat A - of_nat B) / 255\<bar> \<le> 3 * tiny"
proof -
  have a: "\<bar>unit8 A - of_nat A / 255\<bar> \<le> tiny" using assms by (intro unit8_close)
  have b: "\<bar>unit8 B - of_nat B / 255\<bar> \<le> tiny" using assms by (intro unit8_close)
  have "\<bar>unit8 A - unit8 B\<bar> \<le> 1"
    using unit8_nonneg[of A] unit8_nonneg[of B] unit8_le1[OF assms(1)] unit8_le1[OF assms(2)]
    by linarith
  then have "\<bar>fl (unit8 A - unit8 B) - (unit8 A - unit8 B)\<bar> \<le> tiny" by (intro fl_tiny) simp
  then show ?thesis using a b unfolding diff_divide_distrib by linarith
qed

lemma delta8_close:
  "M \<le> 255 \<Longrightarrow> m \<le> 255 \<Longrightarrow> \<bar>delta8 M m - (of_nat M - of_nat m) / 255\<bar> \<le> 3 * tiny"
  unfolding delta8_def by (rule diff8_close)

lemma delta8_same [simp]: "delta8 M M = 0"
  by (simp add: delta8_def)

lemma delta8_lower:
  assumes "m < M" "M \<le> 255"
  shows "1 / 256 \<le> delta8 M m"
proof -
  have "(of_nat m :: rat) + 1 \<le> of_nat M" using assms(1) by (simp flip: of_nat_Suc)
  then have "1 / 255 \<le> (of_nat M - of_nat m) / (255 :: rat)" by simp
  moreover have "\<bar>delta8 M m - (of_nat M - of_nat m) / 255\<bar> \<le> 3 * tiny"
    using assms by (intro delta8_close) simp_all
  ultimately show ?thesis using tiny_small by linarith
qed

lemma delta8_eq_0_iff: "m \<le> M \<Longrightarrow> M \<le> 255 \<Longrightarrow> delta8 M m = 0 \<longleftrightarrow> M = m"
  using delta8_lower[of m M] by (cases "m = M") auto

lemma diff8_le_delta8:
  assumes "m \<le> A" "A \<le> M" "m \<le> B" "B \<le> M"
  shows "\<bar>fl (unit8 A - unit8 B)\<bar> \<le> delta8 M m"
proof -
  have u: "unit8 m \<le> unit8 A" "unit8 A \<le> unit8 M" "unit8 m \<le> unit8 B" "unit8 B \<le> unit8 M"
    using assms by (simp_all add: unit8_mono)
  have "fl (unit8 A - unit8 B) \<le> fl (unit8 M - unit8 m)" using u by (intro fl_mono) linarith
  moreover have "fl (unit8 m - unit8 M) \<le> fl (unit8 A - unit8 B)"
    using u by (intro fl_mono) linarith
  moreover have "fl (unit8 m - unit8 M) = - fl (unit8 M - unit8 m)"
    using fl_neg[of "unit8 M - unit8 m"] by simp
  ultimately show ?thesis unfolding delta8_def by linarith
qed

lemma quot8_ratio_bound:
  assumes "m < M" "M \<le> 255" "m \<le> A" "A \<le> M" "m \<le> B" "B \<le> M"
  shows "\<bar>fl (unit8 A - unit8 B) / delta8 M m\<bar> \<le> 1"
proof -
  have d: "0 < delta8 M m" using delta8_lower[OF assms(1,2)] by linarith
  have "\<bar>fl (unit8 A - unit8 B)\<bar> \<le> delta8 M m" using assms(3-6) by (rule diff8_le_delta8)
  then show ?thesis using d by (simp add: abs_divide field_simps)
qed

lemma quot8_bound:
  assumes "m < M" "M \<le> 255" "m \<le> A" "A \<le> M" "m \<le> B" "B \<le> M"
  shows "\<bar>quot8 A B M m\<bar> \<le> 1"
  unfolding quot8_def using quot8_ratio_bound[OF assms] by (rule fl_b1)

lemma quot8_same [simp]: "quot8 A A M m = 0"
  by (simp add: quot8_def)

lemma quot8_top: "m < M \<Longrightarrow> M \<le> 255 \<Longrightarrow> quot8 M m M m = 1"
  using delta8_lower[of m M] by (simp add: quot8_def delta8_def[symmetric])

lemma quot8_bottom: "m < M \<Longrightarrow> M \<le> 255 \<Longrightarrow> quot8 m M M m = - 1"
proof -
  assume a: "m < M" "M \<le> 255"
  have "fl (unit8 m - unit8 M) = - delta8 M m"
    using fl_neg[of "unit8 M - unit8 m"] by (simp add: delta8_def)
  then show ?thesis using delta8_lower[OF a] by (simp add: quot8_def)
qed

lemma math_max3_Fin: "math_max3 (Fin a) (Fin b) (Fin c) = Fin (max (max a b) c)"
  by (simp add: math_max3_def math_max_def max_def)

lemma math_min3_Fin: "math_min3 (Fin a) (Fin b) (Fin c) = Fin (min (min a b) c)"
  by (simp add: math_min3_def math_min_def min_def)

lemma seq_Fin [simp]: "seq (Fin a) (Fin b) \<longleftrightarrow> a = b"
  by (simp add: seq_def)

lemma norm_Fin: "n \<le> 255 \<Longrightarrow> fdiv (Fin (of_nat n)) (Fin 255) = Fin (unit8 n)"
  by (simp add: small_to_double unit8_def)

lemma diff_Fin:
  assumes "A \<le> 255" "B \<le> 255"
  shows "fsub (Fin (unit8 A)) (Fin (unit8 B)) = Fin (fl (unit8 A - unit8 B))"
proof -
  have "\<bar>unit8 A - unit8 B\<bar> \<le> 1"
    using unit8_nonneg[of A] unit8_nonneg[of B] unit8_le1[OF assms(1)] unit8_le1[OF assms(2)]
    by linarith
  then show ?thesis by (simp add: small_to_double)
qed

lemma quot_Fin:
  assumes "m < M" "M \<le> 255" "m \<le> A" "A \<le> M" "m \<le> B" "B \<le> M"
  shows "fdiv (fsub (Fin (unit8 A)) (Fin (unit8 B))) (Fin (delta8 M m)) = Fin (quot8 A B M m)"
proof -
  have d: "delta8 M m \<noteq> 0" using delta8_lower[OF assms(1,2)] by linarith
  have "A \<le> 255" "B \<le> 255" using assms by simp_all
  then have "fsub (Fin (unit8 A)) (Fin (unit8 B)) = Fin (fl (unit8 A - unit8 B))"
    by (rule diff_Fin)
  moreover have "\<bar>fl (unit8 A - unit8 B) / delta8 M m\<bar> \<le> 1000000"
    using quot8_ratio_bound[OF assms] by linarith
  ultimately show ?thesis using d by (simp add: small_to_double quot8_def)
qed

lemma hue_tail_Fin:
  assumes "\<bar>h1\<bar> \<le> 6"
  shows "(let h2 = fmul (Fin h1) (Fin 60) in if lt h2 (Fin 0) then fadd h2 (Fin 360) else h2)
         = Fin (let h2 = fl (h1 * 60) in if h2 < 0 then fl (h2 + 360) else h2)"
proof -
  have a: "\<bar>h1 * 60\<bar> \<le> 6 * 60" by (rule abs_mult_le[OF assms]) simp
  then have "\<bar>fl (h1 * 60)\<bar> \<le> 360" using fl_bound[of "h1 * 60" 360] by simp
  then have b: "\<bar>fl (h1 * 60) + 360\<bar> \<le> 1000000" by linarith
  have "fmul (Fin h1) (Fin 60) = Fin (fl (h1 * 60))" using a by (simp add: small_to_double)
  then show ?thesis using b by (simp add: Let_def small_to_double)
qed

lemma rgbToHsv_Fin:
  assumes "R \<le> 255" "G \<le> 255" "B \<le> 255"
  shows "rgbToHsv \<lparr>rgb_r = Fin (of_nat R), rgb_g = Fin (of_nat G), rgb_b = Fin (of_nat B), rgb_a = al\<rparr>
         = \<lparr>hsv_h = Fin (hue8 R G B), hsv_s = Fin (sat8 R G B),
            hsv_v = Fin (unit8 (max (max R G) B)), hsv_a = al\<rparr>"
proof -
  define M where "M = max (max R G) B"
  define m where "m = min (min R G) B"
  have M255: "M \<le> 255" and mM: "m \<le> M" using assms by (simp_all add: M_def m_def)
  have rng: "m \<le> R" "R \<le> M" "m \<le> G" "G \<le> M" "m \<le> B" "B \<le> M"
    by (simp_all add: M_def m_def)
  have mx: "math_max3 (Fin (unit8 R)) (Fin (unit8 G)) (Fin (unit8 B)) = Fin (unit8 M)"
    by (simp add: math_max3_Fin unit8_max M_def)
  have mn: "math_min3 (Fin (unit8 R)) (Fin (unit8 G)) (Fin (unit8 B)) = Fin (unit8 m)"
    by (simp add: math_min3_Fin unit8_min m_def)
  have dl: "fsub (Fin (unit8 M)) (Fin (unit8 m)) = Fin (delta8 M m)"
    using diff_Fin[of M m] M255 mM by (simp add: delta8_def)
  have d0: "delta8 M m = 0 \<longleftrightarrow> M = m" using delta8_eq_0_iff[OF mM M255] .
  have eqR: "unit8 M = unit8 R \<longleftrightarrow> R = M" using unit8_eq_iff[of M R] M255 assms by auto
  have eqG: "unit8 M = unit8 G \<longleftrightarrow> G = M" using unit8_eq_iff[of M G] M255 assms by auto
  have z: "unit8 M = 0 \<longleftrightarrow> M = 0" using unit8_eq_0_iff[OF M255] .
  have sat: "(if seq (Fin (unit8 M)) (Fin 0) then Fin 0 else fdiv (Fin (delta8 M m)) (Fin (unit8 M)))
             = Fin (sat8 R G B)"
  proof (cases "M = 0")
    case True
    then show ?thesis by (simp add: sat8_def M_def[symmetric] m_def[symmetric])
  next
    case False
    then have u: "unit8 M \<noteq> 0" using z by simp
    have "1 \<le> M" using False by simp
    then have "unit8 1 \<le> unit8 M" by (rule unit8_mono)
    moreover have "\<bar>unit8 1 - 1 / 255\<bar> \<le> tiny" using unit8_close[of 1] by simp
    ultimately have lo: "1 / 256 \<le> unit8 M" using tiny_small by linarith
    have "\<bar>delta8 M m\<bar> \<le> 1"
      using diff8_le_delta8[of m M M m] fl_b1[of "unit8 M - unit8 m"]
        unit8_nonneg[of M] unit8_nonneg[of m] unit8_le1[OF M255] unit8_le1[of m] mM M255
      by (simp add: delta8_def)
    then have "\<bar>delta8 M m\<bar> / unit8 M \<le> 1 / (1 / 256)"
      using lo by (intro frac_le) simp_all
    then have "\<bar>delta8 M m / unit8 M\<bar> \<le> 1000000" using lo by (simp add: abs_divide)
    then show ?thesis using u False
      by (simp add: small_to_double sat8_def M_def[symmetric] m_def[symmetric])
  qed
  have hue: "(if \<not> seq (Fin (delta8 M m)) (Fin 0)
         then (let h1 = (if seq (Fin (unit8 M)) (Fin (unit8 R))
                         then fmod (fdiv (fsub (Fin (unit8 G)) (Fin (unit8 B))) (Fin (delta8 M m))) (Fin 6)
                         else if seq (Fin (unit8 M)) (Fin (unit8 G))
                         then fadd (fdiv (fsub (Fin (unit8 B)) (Fin (unit8 R))) (Fin (delta8 M m))) (Fin 2)
                         else fadd (fdiv (fsub (Fin (unit8 R)) (Fin (unit8 G))) (Fin (delta8 M m))) (Fin 4));
                   h2 = fmul h1 (Fin 60)
               in if lt h2 (Fin 0) then fadd h2 (Fin 360) else h2)
         else Fin 0) = Fin (hue8 R G B)"
  proof (cases "M = m")
    case True
    then show ?thesis by (simp add: hue8_def M_def[symmetric] m_def[symmetric])
  next
    case False
    then have lt: "m < M" using mM by simp
    note q = quot_Fin[OF lt M255] quot8_bound[OF lt M255]
    have qGB: "\<bar>quot8 G B M m\<bar> \<le> 1" and qBR: "\<bar>quot8 B R M m\<bar> \<le> 1"
      and qRG: "\<bar>quot8 R G M m\<bar> \<le> 1"
      using q(2) rng by simp_all
    have b1: "fmod (Fin (quot8 G B M m)) (Fin 6) = Fin (quot8 G B M m)"
      using qGB fmodr_id_abs[of "quot8 G B M m" 6] by (simp add: fmod_Fin del: fmod.simps)
    have b2: "fadd (Fin (quot8 B R M m)) (Fin 2) = Fin (fl (quot8 B R M m + 2))"
      using qBR by (simp add: small_to_double)
    have b3: "fadd (Fin (quot8 R G M m)) (Fin 4) = Fin (fl (quot8 R G M m + 4))"
      using qRG by (simp add: small_to_double)
    have c1: "\<bar>quot8 G B M m\<bar> \<le> 6" using qGB by linarith
    have c2: "\<bar>fl (quot8 B R M m + 2)\<bar> \<le> 6"
      using fl_b6[of "quot8 B R M m + 2"] qBR by linarith
    have c3: "\<bar>fl (quot8 R G M m + 4)\<bar> \<le> 6"
      using fl_b6[of "quot8 R G M m + 4"] qRG by linarith
    show ?thesis
      using False d0 rng
      by (simp add: q(1) b1 b2 b3 eqR eqG hue_tail_Fin[OF c1] hue_tail_Fin[OF c2]
          hue_tail_Fin[OF c3] hue8_def M_def[symmetric] m_def[symmetric]
          del: fadd.simps fsub.simps fmul.simps fdiv.simps fmod.simps lt.simps)
  qed
  show ?thesis
    using assms
    by (simp add: rgbToHsv_def norm_Fin mx mn dl hue sat M_def[symmetric]
        del: fadd.simps fsub.simps fmul.simps fdiv.simps fmod.simps lt.simps seq_Fin)
qed

lemma div_err:
  fixes n d N D e :: rat
  assumes "\<bar>n - N\<bar> \<le> e" "\<bar>d - D\<bar> \<le> e" "1 / 256 \<le> d" "0 < D" "\<bar>N\<bar> \<le> D"
  shows "\<bar>n / d - N / D\<bar> \<le> 512 * e"
proof -
  have d0: "0 < d" using assms(3) by linarith
  have r: "\<bar>N / D\<bar> \<le> 1" using assms(4,5) by (simp add: abs_divide)
  define z where "z = (N / D) * (D - d)"
  have "\<bar>z\<bar> \<le> 1 * e"
    unfolding z_def abs_mult using r assms(2)
    by (intro mult_mono) (simp_all add: abs_minus_commute)
  then have "\<bar>(n - N) + z\<bar> \<le> 2 * e" using assms(1) by linarith
  then have num: "\<bar>(n - N) + (N / D) * (D - d)\<bar> \<le> 2 * e" by (simp add: z_def)
  have e0: "0 \<le> e" using assms(1) by linarith
  have "n / d - N / D = ((n - N) + (N / D) * (D - d)) / d"
    using d0 assms(4) by (simp add: field_simps)
  then have "\<bar>n / d - N / D\<bar> = \<bar>(n - N) + (N / D) * (D - d)\<bar> / d"
    using d0 by (simp add: abs_divide)
  also have "\<dots> \<le> (2 * e) / (1 / 256)"
    using num assms(3) e0 by (intro frac_le) simp_all
  finally show ?thesis by simp
qed

lemma mul_err:
  fixes x y X Y :: rat
  assumes "\<bar>x - X\<bar> \<le> e1" "\<bar>y - Y\<bar> \<le> e2" "\<bar>x\<bar> \<le> a" "\<bar>Y\<bar> \<le> b"
  shows "\<bar>x * y - X * Y\<bar> \<le> a * e2 + b * e1"
proof -
  have "x * y - X * Y = x * (y - Y) + Y * (x - X)" by (simp add: algebra_simps)
  moreover have "\<bar>x * (y - Y)\<bar> \<le> a * e2" using assms(2,3) by (rule abs_mult_le[rotated])
  moreover have "\<bar>Y * (x - X)\<bar> \<le> b * e1" using assms(1,4) by (rule abs_mult_le[rotated])
  ultimately show ?thesis by linarith
qed

lemma chan_exact:
  assumes "\<bar>p + mm - of_nat K / 255\<bar> \<le> 100000 * tiny" "K \<le> 255"
  shows "chan p mm = of_nat K"
proof -
  have k: "0 \<le> (of_nat K :: rat) / 255" "(of_nat K :: rat) / 255 \<le> 1" using assms(2) by simp_all
  have b1: "\<bar>p + mm\<bar> \<le> 512" using assms(1) k tiny_small by linarith
  define y1 where "y1 = fl (p + mm)"
  have e1: "\<bar>y1 - (p + mm)\<bar> \<le> tiny" unfolding y1_def using b1 by (rule fl_tiny)
  have y1K: "\<bar>y1 - of_nat K / 255\<bar> \<le> 100001 * tiny" using e1 assms(1) by linarith
  have "\<bar>(y1 - of_nat K / 255) * 255\<bar> \<le> 100001 * tiny * 255"
    by (rule abs_mult_le[OF y1K]) simp
  then have y2K: "\<bar>y1 * 255 - of_nat K\<bar> \<le> 25500255 * tiny" by (simp add: algebra_simps)
  have "(of_nat K :: rat) \<le> 255" using assms(2) by simp
  then have b2: "\<bar>y1 * 255\<bar> \<le> 512" using y2K tiny_small by linarith
  define y2 where "y2 = fl (y1 * 255)"
  have e2: "\<bar>y2 - y1 * 255\<bar> \<le> tiny" unfolding y2_def using b2 by (rule fl_tiny)
  have "\<bar>y2 - of_nat K\<bar> \<le> 25500256 * tiny" using e2 y2K by linarith
  then have "of_nat K \<le> y2 + 1 / 2" "y2 + 1 / 2 < of_nat K + 1"
    using tiny_small by linarith+
  then have "of_int (int K) \<le> y2 + 1 / 2" "y2 + 1 / 2 < of_int (int K) + 1"
    by simp_all
  then have "\<lfloor>y2 + 1 / 2\<rfloor> = int K" by (rule floor_unique)
  then show ?thesis by (simp add: chan_def y1_def y2_def)
qed

lemma unit8_lower: "1 \<le> M \<Longrightarrow> 1 / 256 \<le> unit8 M"
proof -
  assume "1 \<le> M"
  then have "unit8 1 \<le> unit8 M" by (rule unit8_mono)
  moreover have "\<bar>unit8 1 - 1 / 255\<bar> \<le> tiny" using unit8_close[of 1] by simp
  ultimately show ?thesis using tiny_small by linarith
qed

lemma frac_255: "(a / 255) / (b / 255) = a / (b :: rat)"
  by simp

lemma cancel_255: "z \<noteq> 0 \<Longrightarrow> (z / 255) * (k / z) = k / (255 :: rat)"
  by simp

lemma ratio01:
  assumes "m \<le> M"
  shows "0 \<le> (of_nat M - of_nat m) / (of_nat M :: rat)"
    and "(of_nat M - of_nat m) / (of_nat M :: rat) \<le> 1"
proof -
  have a: "0 \<le> (of_nat M :: rat) - of_nat m" using assms by simp
  then show "0 \<le> (of_nat M - of_nat m) / (of_nat M :: rat)" by (intro divide_nonneg_nonneg) simp_all
  show "(of_nat M - of_nat m) / (of_nat M :: rat) \<le> 1"
    by (cases "M = 0") (simp_all add: divide_le_eq)
qed

lemma sat_close:
  assumes "m \<le> M" "M \<le> 255"
  shows "\<bar>sat_of M m - (of_nat M - of_nat m) / of_nat M\<bar> \<le> 1537 * tiny"
proof (cases "m = M")
  case True
  then show ?thesis using tiny_pos by (simp add: sat_of_def)
next
  case False
  then have lt: "m < M" using assms by simp
  then have M1: "1 \<le> M" by simp
  have m255: "m \<le> 255" using assms by simp
  define V :: rat where "V = of_nat M / 255"
  define D :: rat where "D = (of_nat M - of_nat m) / 255"
  have V0: "0 < V" using M1 by (simp add: V_def)
  have "(of_nat m :: rat) \<le> of_nat M" using assms(1) by simp
  then have D0: "0 \<le> D" "D \<le> V" by (simp_all add: D_def V_def divide_right_mono)
  have a: "\<bar>delta8 M m - D\<bar> \<le> 3 * tiny" unfolding D_def using assms(2) m255 by (rule delta8_close)
  have "\<bar>unit8 M - V\<bar> \<le> tiny" unfolding V_def using assms(2) by (rule unit8_close)
  then have b: "\<bar>unit8 M - V\<bar> \<le> 3 * tiny" using tiny_pos by linarith
  have "\<bar>D\<bar> \<le> V" using D0 by simp
  then have "\<bar>delta8 M m / unit8 M - D / V\<bar> \<le> 512 * (3 * tiny)"
    using a b unit8_lower[OF M1] V0 by (intro div_err) simp_all
  moreover have "D / V = (of_nat M - of_nat m) / of_nat M"
    unfolding D_def V_def by (rule frac_255)
  ultimately have q: "\<bar>delta8 M m / unit8 M - (of_nat M - of_nat m) / of_nat M\<bar> \<le> 1536 * tiny"
    by simp
  then have "\<bar>delta8 M m / unit8 M\<bar> \<le> 512"
    using ratio01[OF assms(1)] tiny_small by linarith
  then have "\<bar>sat_of M m - delta8 M m / unit8 M\<bar> \<le> tiny" unfolding sat_of_def by (rule fl_tiny)
  then show ?thesis using q by linarith
qed

lemma sat_range:
  assumes "m \<le> M" "M \<le> 255"
  shows "\<bar>sat_of M m\<bar> \<le> 2"
proof -
  show ?thesis using ratio01[OF assms(1)] sat_close[OF assms] tiny_small by linarith
qed

lemma chroma_close:
  assumes "m \<le> M" "M \<le> 255"
  shows "\<bar>chroma_of M m - (of_nat M - of_nat m) / 255\<bar> \<le> 1539 * tiny"
proof -
  define S :: rat where "S = (of_nat M - of_nat m) / of_nat M"
  define V :: rat where "V = of_nat M / 255"
  have S01: "\<bar>S\<bar> \<le> 1" unfolding S_def using ratio01[OF assms(1)] by linarith
  have v1: "\<bar>unit8 M\<bar> \<le> 1" using unit8_nonneg[of M] unit8_le1[OF assms(2)] by simp
  have a: "\<bar>unit8 M - V\<bar> \<le> tiny" unfolding V_def using assms(2) by (rule unit8_close)
  have b: "\<bar>sat_of M m - S\<bar> \<le> 1537 * tiny" unfolding S_def using assms by (rule sat_close)
  have "\<bar>unit8 M * sat_of M m - V * S\<bar> \<le> 1 * (1537 * tiny) + 1 * tiny"
    by (rule mul_err[OF a b v1 S01])
  moreover have "V * S = (of_nat M - of_nat m) / 255"
  proof (cases "M = 0")
    case True
    then show ?thesis using assms(1) by (simp add: V_def S_def)
  next
    case False
    then have "(of_nat M :: rat) \<noteq> 0" by simp
    then show ?thesis unfolding V_def S_def by (rule cancel_255)
  qed
  ultimately have p: "\<bar>unit8 M * sat_of M m - (of_nat M - of_nat m) / 255\<bar> \<le> 1538 * tiny"
    by simp
  have "0 \<le> (of_nat M - of_nat m) / (255 :: rat)" "(of_nat M - of_nat m) / (255 :: rat) \<le> 1"
    using assms by simp_all
  then have "\<bar>unit8 M * sat_of M m\<bar> \<le> 512" using p tiny_small by linarith
  then have "\<bar>chroma_of M m - unit8 M * sat_of M m\<bar> \<le> tiny"
    unfolding chroma_of_def by (rule fl_tiny)
  then show ?thesis using p by linarith
qed

lemma base_close:
  assumes "m \<le> M" "M \<le> 255"
  shows "\<bar>base_of M m - of_nat m / 255\<bar> \<le> 1541 * tiny"
proof -
  have a: "\<bar>unit8 M - of_nat M / 255\<bar> \<le> tiny" using assms(2) by (rule unit8_close)
  have b: "\<bar>chroma_of M m - (of_nat M - of_nat m) / 255\<bar> \<le> 1539 * tiny"
    using assms by (rule chroma_close)
  have e: "of_nat M / 255 - (of_nat M - of_nat m) / 255 = (of_nat m / 255 :: rat)"
    by (simp add: diff_divide_distrib)
  have p: "\<bar>(unit8 M - chroma_of M m) - of_nat m / 255\<bar> \<le> 1540 * tiny"
    using a b e by linarith
  have "0 \<le> (of_nat m :: rat) / 255" "(of_nat m :: rat) / 255 \<le> 1" using assms by simp_all
  then have "\<bar>unit8 M - chroma_of M m\<bar> \<le> 512" using p tiny_small by linarith
  then have "\<bar>base_of M m - (unit8 M - chroma_of M m)\<bar> \<le> tiny"
    unfolding base_of_def by (rule fl_tiny)
  then show ?thesis using p by linarith
qed

lemma chan_max:
  assumes "m \<le> M" "M \<le> 255"
  shows "chan (chroma_of M m) (base_of M m) = of_nat M"
proof -
  have e: "(of_nat M - of_nat m) / 255 + of_nat m / 255 = (of_nat M / 255 :: rat)"
    by (simp add: diff_divide_distrib)
  have "\<bar>chroma_of M m + base_of M m - of_nat M / 255\<bar> \<le> 100000 * tiny"
    using chroma_close[OF assms] base_close[OF assms] e tiny_pos by linarith
  then show ?thesis using assms(2) by (rule chan_exact)
qed

lemma chan_min:
  assumes "m \<le> M" "M \<le> 255"
  shows "chan 0 (base_of M m) = of_nat m"
proof -
  have "\<bar>0 + base_of M m - of_nat m / 255\<bar> \<le> 100000 * tiny"
    using base_close[OF assms] tiny_pos by linarith
  then show ?thesis using assms by (intro chan_exact) simp_all
qed

lemma chan_mid:
  assumes "m < M" "M \<le> 255" "m \<le> K" "K \<le> M"
    and "\<bar>f - (of_nat K - of_nat m) / (of_nat M - of_nat m)\<bar> \<le> 2000 * tiny"
  shows "chan (fl (chroma_of M m * f)) (base_of M m) = of_nat K"
proof -
  have mM: "m \<le> M" using assms(1) by simp
  define F :: rat where "F = (of_nat K - of_nat m) / (of_nat M - of_nat m)"
  define D :: rat where "D = (of_nat M - of_nat m) / 255"
  have pos: "0 < (of_nat M :: rat) - of_nat m" using assms(1) by simp
  have "0 \<le> (of_nat K :: rat) - of_nat m" "(of_nat K :: rat) - of_nat m \<le> of_nat M - of_nat m"
    using assms(3,4) by simp_all
  then have "0 \<le> F" "F \<le> 1" using pos by (simp_all add: F_def divide_le_eq)
  then have F01: "\<bar>F\<bar> \<le> 1" by linarith
  have a: "\<bar>chroma_of M m - D\<bar> \<le> 1539 * tiny" unfolding D_def using mM assms(2) by (rule chroma_close)
  have "0 \<le> D" "D \<le> 1" using assms(1,2) by (simp_all add: D_def)
  then have cb: "\<bar>chroma_of M m\<bar> \<le> 2" using a tiny_small by linarith
  have b: "\<bar>f - F\<bar> \<le> 2000 * tiny" using assms(5) by (simp add: F_def)
  have "\<bar>chroma_of M m * f - D * F\<bar> \<le> 2 * (2000 * tiny) + 1 * (1539 * tiny)"
    by (rule mul_err[OF a b cb F01])
  moreover have "D * F = (of_nat K - of_nat m) / 255"
    unfolding D_def F_def using pos by (intro cancel_255) simp
  ultimately have p: "\<bar>chroma_of M m * f - (of_nat K - of_nat m) / 255\<bar> \<le> 5539 * tiny" by simp
  have "0 \<le> (of_nat K - of_nat m) / (255 :: rat)" "(of_nat K - of_nat m) / (255 :: rat) \<le> 1"
    using assms by simp_all
  then have "\<bar>chroma_of M m * f\<bar> \<le> 512" using p tiny_small by linarith
  then have x: "\<bar>fl (chroma_of M m * f) - chroma_of M m * f\<bar> \<le> tiny" by (rule fl_tiny)
  have e: "(of_nat K - of_nat m) / 255 + of_nat m / 255 = (of_nat K / 255 :: rat)"
    by (simp add: diff_divide_distrib)
  have "\<bar>fl (chroma_of M m * f) + base_of M m - of_nat K / 255\<bar> \<le> 100000 * tiny"
    using x p base_close[OF mM assms(2)] e tiny_pos by linarith
  then show ?thesis using assms by (intro chan_exact) simp_all
qed

lemma quot8_close:
  assumes "m < M" "M \<le> 255" "m \<le> A" "A \<le> M" "m \<le> B" "B \<le> M"
  shows "\<bar>quot8 A B M m - (of_nat A - of_nat B) / (of_nat M - of_nat m)\<bar> \<le> 1537 * tiny"
proof -
  define N :: rat where "N = (of_nat A - of_nat B) / 255"
  define D :: rat where "D = (of_nat M - of_nat m) / 255"
  have pos: "0 < (of_nat M :: rat) - of_nat m" using assms(1) by simp
  then have D0: "0 < D" by (simp add: D_def)
  have "\<bar>(of_nat A :: rat) - of_nat B\<bar> \<le> of_nat M - of_nat m"
    using assms(3-6) by (simp add: abs_le_iff)
  then have ND: "\<bar>N\<bar> \<le> D" by (simp add: N_def D_def abs_divide divide_right_mono)
  have a: "\<bar>fl (unit8 A - unit8 B) - N\<bar> \<le> 3 * tiny"
    unfolding N_def using assms by (intro diff8_close) simp_all
  have b: "\<bar>delta8 M m - D\<bar> \<le> 3 * tiny"
    unfolding D_def using assms by (intro delta8_close) simp_all
  have "\<bar>fl (unit8 A - unit8 B) / delta8 M m - N / D\<bar> \<le> 512 * (3 * tiny)"
    using a b delta8_lower[OF assms(1,2)] D0 ND by (rule div_err)
  moreover have "N / D = (of_nat A - of_nat B) / (of_nat M - of_nat m)"
    unfolding N_def D_def by (rule frac_255)
  ultimately have q: "\<bar>fl (unit8 A - unit8 B) / delta8 M m
      - (of_nat A - of_nat B) / (of_nat M - of_nat m)\<bar> \<le> 1536 * tiny" by simp
  have "\<bar>fl (unit8 A - unit8 B) / delta8 M m\<bar> \<le> 512"
    using quot8_ratio_bound[OF assms] by linarith
  then have "\<bar>quot8 A B M m - fl (unit8 A - unit8 B) / delta8 M m\<bar> \<le> tiny"
    unfolding quot8_def by (rule fl_tiny)
  then show ?thesis using q by linarith
qed

lemma fmodr_2_floor: "0 \<le> t \<Longrightarrow> \<lfloor>t / 2\<rfloor> = j \<Longrightarrow> fmodr t 2 = t - 2 * of_int j"
  by (simp add: fmodr_def trunc_def)

lemma tri_even:
  assumes "0 \<le> j" "j \<le> 2" "60 * (2 * of_int j) \<le> h" "h \<le> 60 * (2 * of_int j + 1)"
  shows "\<bar>tri h - (h / 60 - 2 * of_int j)\<bar> \<le> 3 * tiny"
proof -
  define t where "t = fl (h / 60)"
  have lo: "of_int (2 * j) \<le> h / 60" and hi: "h / 60 \<le> of_int (2 * j + 1)"
    using assms(3,4) by simp_all
  have jj: "(of_int j :: rat) \<le> 2" "0 \<le> (of_int j :: rat)" using assms(1,2) by simp_all
  have tl: "of_int (2 * j) \<le> t" unfolding t_def using lo assms(1,2) by (intro fl_ge_int) simp_all
  have tu: "t \<le> of_int (2 * j + 1)" unfolding t_def using hi assms(1,2) by (intro fl_le_int) simp_all
  have "\<bar>h / 60\<bar> \<le> 512" using lo hi jj by simp
  then have te: "\<bar>t - h / 60\<bar> \<le> tiny" unfolding t_def by (rule fl_tiny)
  have t0: "0 \<le> t" using tl jj by (simp; linarith?)
  have "of_int j \<le> t / 2" "t / 2 < of_int j + 1" using tl tu by simp_all
  then have "\<lfloor>t / 2\<rfloor> = j" by (rule floor_unique)
  then have fm: "fmodr t 2 = t - 2 * of_int j" using t0 by (rule fmodr_2_floor[rotated])
  define w where "w = fl (fmodr t 2 - 1)"
  have r1: "of_int (- 1) \<le> fmodr t 2 - 1" "fmodr t 2 - 1 \<le> 0" using fm tl tu by simp_all
  have wl: "- 1 \<le> w" unfolding w_def using fl_ge_int[OF r1(1)] by simp
  have wu: "w \<le> 0" unfolding w_def using r1(2) by (rule fl_nonpos)
  have "\<bar>fmodr t 2 - 1\<bar> \<le> 512" using r1 by simp
  then have we: "\<bar>w - (fmodr t 2 - 1)\<bar> \<le> tiny" unfolding w_def by (rule fl_tiny)
  have aw: "\<bar>w\<bar> = - w" using wu by simp
  have "\<bar>1 - \<bar>w\<bar>\<bar> \<le> 512" using wl wu by simp
  then have fe: "\<bar>fl (1 - \<bar>w\<bar>) - (1 - \<bar>w\<bar>)\<bar> \<le> tiny" by (rule fl_tiny)
  have "tri h = fl (1 - \<bar>w\<bar>)" by (simp add: tri_def w_def t_def)
  then show ?thesis using fe we te aw fm by linarith
qed

lemma tri_odd:
  assumes "0 \<le> j" "j \<le> 2" "60 * (2 * of_int j + 1) \<le> h" "h \<le> 60 * (2 * of_int j + 2)"
  shows "\<bar>tri h - (2 * of_int j + 2 - h / 60)\<bar> \<le> 3 * tiny"
proof -
  define t where "t = fl (h / 60)"
  have lo: "of_int (2 * j + 1) \<le> h / 60" and hi: "h / 60 \<le> of_int (2 * j + 2)"
    using assms(3,4) by simp_all
  have jj: "(of_int j :: rat) \<le> 2" "0 \<le> (of_int j :: rat)" using assms(1,2) by simp_all
  have tl: "of_int (2 * j + 1) \<le> t" unfolding t_def using lo assms(1,2) by (intro fl_ge_int) simp_all
  have tu: "t \<le> of_int (2 * j + 2)" unfolding t_def using hi assms(1,2) by (intro fl_le_int) simp_all
  have "\<bar>h / 60\<bar> \<le> 512" using lo hi jj by simp
  then have te: "\<bar>t - h / 60\<bar> \<le> tiny" unfolding t_def by (rule fl_tiny)
  have t0: "0 \<le> t" using tl jj by (simp; linarith?)
  have tr: "tri h = fl (1 - \<bar>fl (fmodr t 2 - 1)\<bar>)" by (simp add: tri_def t_def)
  show ?thesis
  proof (cases "t = of_int (2 * j + 2)")
    case True
    then have "t / 2 = of_int (j + 1)" by simp
    then have "\<lfloor>t / 2\<rfloor> = j + 1" by (simp only: floor_of_int)
    then have "fmodr t 2 = t - 2 * of_int (j + 1)" using t0 by (rule fmodr_2_floor[rotated])
    then have "fmodr t 2 = 0" using True by simp
    then have "tri h = 0" using tr by simp
    then show ?thesis using te True tiny_pos by (simp; linarith?)
  next
    case False
    then have tu': "t < of_int (2 * j + 2)" using tu by simp
    have "of_int j \<le> t / 2" "t / 2 < of_int j + 1" using tl tu' by simp_all
    then have "\<lfloor>t / 2\<rfloor> = j" by (rule floor_unique)
    then have fm: "fmodr t 2 = t - 2 * of_int j" using t0 by (rule fmodr_2_floor[rotated])
    define w where "w = fl (fmodr t 2 - 1)"
    have r1: "0 \<le> fmodr t 2 - 1" "fmodr t 2 - 1 \<le> of_int 1" using fm tl tu by simp_all
    have wl: "0 \<le> w" unfolding w_def using r1(1) by (rule fl_nonneg)
    have wu: "w \<le> 1" unfolding w_def using fl_le_int[OF r1(2)] by simp
    have "\<bar>fmodr t 2 - 1\<bar> \<le> 512" using r1 by simp
    then have we: "\<bar>w - (fmodr t 2 - 1)\<bar> \<le> tiny" unfolding w_def by (rule fl_tiny)
    have aw: "\<bar>w\<bar> = w" using wl by simp
    have "\<bar>1 - \<bar>w\<bar>\<bar> \<le> 512" using wl wu by simp
    then have fe: "\<bar>fl (1 - \<bar>w\<bar>) - (1 - \<bar>w\<bar>)\<bar> \<le> tiny" by (rule fl_tiny)
    have "tri h = fl (1 - \<bar>w\<bar>)" using tr by (simp add: w_def)
    then show ?thesis using fe we te aw fm by linarith
  qed
qed

lemma grid_le:
  assumes "m < M" "M \<le> 255"
    and "(of_nat A - of_nat B) / (of_nat M - of_nat m) < (1 / 255 :: rat)"
  shows "A \<le> B"
proof (rule ccontr)
  assume "\<not> A \<le> B"
  then have "B < A" by simp
  then have "(of_nat B :: rat) + 1 \<le> of_nat A" by (simp flip: of_nat_Suc)
  then have n: "1 \<le> (of_nat A :: rat) - of_nat B" by linarith
  have pos: "0 < (of_nat M :: rat) - of_nat m" using assms(1) by simp
  have "(of_nat M :: rat) \<le> 255" using assms(2) by simp
  then have le: "(of_nat M :: rat) - of_nat m \<le> 255" by linarith
  have "1 / 255 \<le> 1 / ((of_nat M :: rat) - of_nat m)" using pos le by (intro divide_left_mono) simp_all
  also have "\<dots> \<le> (of_nat A - of_nat B) / ((of_nat M :: rat) - of_nat m)"
    using n pos by (intro divide_right_mono) simp_all
  finally show False using assms(3) by linarith
qed

lemma grid_top:
  assumes "m < M" "M \<le> 255" "A \<le> M" "m \<le> B"
    and "1 - 1 / 255 < (of_nat A - of_nat B) / ((of_nat M :: rat) - of_nat m)"
  shows "A = M \<and> B = m"
proof (rule ccontr)
  assume "\<not> (A = M \<and> B = m)"
  then have "A < M \<or> m < B" using assms(3,4) by auto
  then have "Suc (A + m) \<le> M + B" using assms(3,4) by auto
  then have "(of_nat (Suc (A + m)) :: rat) \<le> of_nat (M + B)" by (simp only: of_nat_le_iff)
  then have n: "(of_nat A :: rat) - of_nat B \<le> of_nat M - of_nat m - 1" by simp
  have pos: "0 < (of_nat M :: rat) - of_nat m" using assms(1) by simp
  have "(of_nat M :: rat) \<le> 255" using assms(2) by simp
  then have le: "(of_nat M :: rat) - of_nat m \<le> 255" by linarith
  have "(of_nat A - of_nat B) / ((of_nat M :: rat) - of_nat m)
        \<le> (of_nat M - of_nat m - 1) / (of_nat M - of_nat m)"
    using n pos by (intro divide_right_mono) simp_all
  also have "\<dots> = 1 - 1 / (of_nat M - of_nat m)" using pos by (simp add: field_simps)
  also have "\<dots> \<le> 1 - 1 / 255"
  proof -
    have "1 / 255 \<le> 1 / ((of_nat M :: rat) - of_nat m)"
      using pos le by (intro divide_left_mono) simp_all
    then show ?thesis by linarith
  qed
  finally show False using assms(5) by linarith
qed

lemma quot8_sign:
  assumes "m < M" "M \<le> 255" "B \<le> A"
  shows "0 \<le> quot8 A B M m"
proof -
  have "0 \<le> unit8 A - unit8 B" using unit8_mono[OF assms(3)] by simp
  then have "0 \<le> fl (unit8 A - unit8 B)" by (rule fl_nonneg)
  moreover have "0 < delta8 M m" using delta8_lower[OF assms(1,2)] by linarith
  ultimately have "0 \<le> fl (unit8 A - unit8 B) / delta8 M m" by simp
  then show ?thesis unfolding quot8_def by (rule fl_nonneg)
qed

lemma times60_close:
  assumes "\<bar>y - Y\<bar> \<le> e" "\<bar>y\<bar> \<le> 6"
  shows "\<bar>fl (y * 60) - Y * 60\<bar> \<le> 60 * e + tiny"
proof -
  have "\<bar>(y - Y) * 60\<bar> \<le> e * 60" by (rule abs_mult_le[OF assms(1)]) simp
  then have a: "\<bar>y * 60 - Y * 60\<bar> \<le> 60 * e" by (simp add: algebra_simps)
  have "\<bar>y * 60\<bar> \<le> 6 * 60" by (rule abs_mult_le[OF assms(2)]) simp
  then have "\<bar>y * 60\<bar> \<le> 512" by simp
  then have "\<bar>fl (y * 60) - y * 60\<bar> \<le> tiny" by (rule fl_tiny)
  then show ?thesis using a by linarith
qed

lemma hue_offset:
  assumes "\<bar>q\<bar> \<le> 1" "\<bar>q - Q\<bar> \<le> 1537 * tiny" "0 \<le> k" "k \<le> 4"
  shows "60 * (of_int k - 1) \<le> fl (fl (q + of_int k) * 60)"
    and "fl (fl (q + of_int k) * 60) \<le> 60 * (of_int k + 1)"
    and "\<bar>fl (fl (q + of_int k) * 60) - 60 * (Q + of_int k)\<bar> \<le> 92281 * tiny"
proof -
  define h1 where "h1 = fl (q + of_int k)"
  have kk: "0 \<le> (of_int k :: rat)" "(of_int k :: rat) \<le> 4" using assms(3,4) by simp_all
  have qr: "- 1 \<le> q" "q \<le> 1" using assms(1) by linarith+
  have l1: "of_int (k - 1) \<le> q + of_int k" and u1: "q + of_int k \<le> of_int (k + 1)"
    using qr by simp_all
  have h1l: "of_int (k - 1) \<le> h1" unfolding h1_def using l1 assms(3,4) by (intro fl_ge_int) simp_all
  have h1u: "h1 \<le> of_int (k + 1)" unfolding h1_def using u1 assms(3,4) by (intro fl_le_int) simp_all
  have "\<bar>q + of_int k\<bar> \<le> 512" using assms(1) kk by linarith
  then have "\<bar>h1 - (q + of_int k)\<bar> \<le> tiny" unfolding h1_def by (rule fl_tiny)
  then have e1: "\<bar>h1 - (Q + of_int k)\<bar> \<le> 1538 * tiny" using assms(2) by linarith
  have b1: "\<bar>h1\<bar> \<le> 6" using h1l h1u kk by (simp; linarith?)
  have "\<bar>fl (h1 * 60) - (Q + of_int k) * 60\<bar> \<le> 60 * (1538 * tiny) + tiny"
    using e1 b1 by (rule times60_close)
  then show "\<bar>fl (fl (q + of_int k) * 60) - 60 * (Q + of_int k)\<bar> \<le> 92281 * tiny"
    by (simp add: h1_def algebra_simps)
  have "of_int (60 * (k - 1)) \<le> h1 * 60" using h1l by simp
  then have "of_int (60 * (k - 1)) \<le> fl (h1 * 60)" using assms(3,4) by (intro fl_ge_int) simp_all
  then show "60 * (of_int k - 1) \<le> fl (fl (q + of_int k) * 60)" by (simp add: h1_def)
  have "h1 * 60 \<le> of_int (60 * (k + 1))" using h1u by simp
  then have "fl (h1 * 60) \<le> of_int (60 * (k + 1))" using assms(3,4) by (intro fl_le_int) simp_all
  then show "fl (fl (q + of_int k) * 60) \<le> 60 * (of_int k + 1)" by (simp add: h1_def)
qed

lemma ratio_neg: "((a :: rat) - b) / d = - ((b - a) / d)"
  by (simp add: minus_divide_left)

lemma ratio_one: "m < M \<Longrightarrow> ((of_nat M :: rat) - of_nat m) / (of_nat M - of_nat m) = 1"
  by simp

lemma grid_neg:
  assumes "m < M" "M \<le> 255" "A < B"
  shows "(of_nat A - of_nat B) / ((of_nat M :: rat) - of_nat m) \<le> - (1 / 255)"
proof -
  have "\<not> (of_nat B - of_nat A) / ((of_nat M :: rat) - of_nat m) < 1 / 255"
    using grid_le[OF assms(1,2), of B A] assms(3) by auto
  then show ?thesis using ratio_neg[of "of_nat A" "of_nat B" "of_nat M - of_nat m"] by linarith
qed

lemma sat8_eq: "sat8 R G B = sat_of (max (max R G) B) (min (min R G) B)"
  by (simp add: sat8_def sat_of_def Let_def)

lemma chroma_gray [simp]: "chroma_of M M = 0"
  by (simp add: chroma_of_def sat_of_def)

text \<open>The first branch of the hue: red is the largest channel.\<close>

lemma channels_red_max:
  assumes "m < M" "M \<le> 255" "m \<le> G" "G \<le> M" "m \<le> B" "B \<le> M" "m = min G B"
  defines "h2 \<equiv> fl (quot8 G B M m * 60)"
  defines "h \<equiv> (if h2 < 0 then fl (h2 + 360) else h2)"
  defines "c \<equiv> chroma_of M m"
  defines "x \<equiv> fl (c * tri h)"
  defines "mm \<equiv> base_of M m"
  shows "0 \<le> h \<and> h < 360 \<and>
     (case primes h c x of (rP, gP, bP) \<Rightarrow>
        chan rP mm = of_nat M \<and> chan gP mm = of_nat G \<and> chan bP mm = of_nat B)"
proof -
  define Q :: rat where "Q = (of_nat G - of_nat B) / (of_nat M - of_nat m)"
  define q where "q = quot8 G B M m"
  have mM: "m \<le> M" using assms(1) by simp
  have cmax: "chan c mm = of_nat M" unfolding c_def mm_def using mM assms(2) by (rule chan_max)
  have cmin: "chan 0 mm = of_nat m" unfolding mm_def using mM assms(2) by (rule chan_min)
  have qb: "\<bar>q\<bar> \<le> 1" unfolding q_def using assms(1-6) by (rule quot8_bound)
  have qc: "\<bar>q - Q\<bar> \<le> 1537 * tiny" unfolding q_def Q_def using assms(1-6) by (rule quot8_close)
  have q6: "\<bar>q\<bar> \<le> 6" using qb by linarith
  have h2c: "\<bar>h2 - Q * 60\<bar> \<le> 60 * (1537 * tiny) + tiny"
    unfolding h2_def q_def[symmetric] using qc q6 by (rule times60_close)
  show ?thesis
  proof (cases "B \<le> G")
    case True
    then have mB: "m = B" using assms(7) by simp
    have "0 \<le> q" unfolding q_def using assms(1,2) True by (rule quot8_sign)
    then have "0 \<le> q * 60" by simp
    then have h2l: "0 \<le> h2" unfolding h2_def q_def[symmetric] by (rule fl_nonneg)
    have "q * 60 \<le> of_int 60" using qb by (simp; linarith?)
    then have h2u: "h2 \<le> 60" unfolding h2_def q_def[symmetric] using fl_le_int[of "q * 60" 60] by simp
    have hh: "h = h2" using h2l by (simp add: h_def)
    show ?thesis
    proof (cases "h < 60")
      case True
      have "\<bar>tri h - (h / 60 - 2 * of_int 0)\<bar> \<le> 3 * tiny"
        using h2l h2u hh by (intro tri_even) simp_all
      then have "\<bar>tri h - Q\<bar> \<le> 2000 * tiny" using h2c hh tiny_pos by (simp; linarith?)
      then have "\<bar>tri h - (of_nat G - of_nat m) / (of_nat M - of_nat m)\<bar> \<le> 2000 * tiny"
        by (simp add: Q_def mB)
      then have "chan x mm = of_nat G"
        unfolding x_def c_def mm_def using assms(1-4) by (intro chan_mid) simp_all
      then show ?thesis using True h2l hh cmax cmin mB by (simp add: primes_def)
    next
      case False
      then have h60: "h = 60" using h2u hh by simp
      have "1 - 1 / 255 < Q" using h2c hh h60 tiny_small by (simp; linarith?)
      then have top: "G = M \<and> B = m" unfolding Q_def by (rule grid_top[OF assms(1,2,4,5)])
      have "\<bar>tri h - (2 * of_int 0 + 2 - h / 60)\<bar> \<le> 3 * tiny"
        using h60 by (intro tri_odd) simp_all
      then have "\<bar>tri h - 1\<bar> \<le> 2000 * tiny" using h60 tiny_pos by simp
      then have "\<bar>tri h - (of_nat M - of_nat m) / (of_nat M - of_nat m)\<bar> \<le> 2000 * tiny"
        using ratio_one[OF assms(1)] by simp
      then have "chan x mm = of_nat M"
        unfolding x_def c_def mm_def using assms(1,2) by (intro chan_mid) simp_all
      then show ?thesis using h60 cmax cmin top by (simp add: primes_def)
    qed
  next
    case False
    then have GB: "G < B" by simp
    then have mG: "m = G" using assms(7) by simp
    have Qn: "Q \<le> - (1 / 255)" unfolding Q_def using assms(1,2) GB by (rule grid_neg)
    have h2n: "h2 < 0" using h2c Qn tiny_small by linarith
    have "of_int (- 60) \<le> q * 60" using qb by (simp; linarith?)
    then have h2l: "- 60 \<le> h2"
      unfolding h2_def q_def[symmetric] using fl_ge_int[of "- 60" "q * 60"] by simp
    have hh: "h = fl (h2 + 360)" using h2n by (simp add: h_def)
    have "of_int 300 \<le> h2 + 360" using h2l by simp
    then have hl: "300 \<le> h" unfolding hh using fl_ge_int[of 300 "h2 + 360"] by simp
    have "\<bar>h2 + 360\<bar> \<le> 512" using h2l h2n by linarith
    then have "\<bar>h - (h2 + 360)\<bar> \<le> tiny" unfolding hh by (rule fl_tiny)
    then have hc: "\<bar>h - (360 + Q * 60)\<bar> \<le> 92222 * tiny" using h2c by linarith
    have hu: "h < 360" using hc Qn tiny_small by linarith
    have "\<bar>tri h - (2 * of_int 2 + 2 - h / 60)\<bar> \<le> 3 * tiny"
      using hl hu by (intro tri_odd) simp_all
    then have "\<bar>tri h - (- Q)\<bar> \<le> 2000 * tiny" using hc tiny_pos by (simp; linarith?)
    moreover have "- Q = (of_nat B - of_nat m) / (of_nat M - of_nat m)"
      unfolding Q_def mG by (simp add: ratio_neg[of "of_nat G" "of_nat B"])
    ultimately have "\<bar>tri h - (of_nat B - of_nat m) / (of_nat M - of_nat m)\<bar> \<le> 2000 * tiny"
      by simp
    then have "chan x mm = of_nat B"
      unfolding x_def c_def mm_def using assms(1,2,5,6) by (intro chan_mid) simp_all
    then show ?thesis using hl hu cmax cmin mG by (simp add: primes_def)
  qed
qed

text \<open>The second branch of the hue: green is the largest channel.\<close>

lemma channels_green_max:
  assumes "m < M" "M \<le> 255" "m \<le> R" "R \<le> M" "m \<le> B" "B \<le> M" "m = min R B"
  defines "h \<equiv> fl (fl (quot8 B R M m + 2) * 60)"
  defines "c \<equiv> chroma_of M m"
  defines "x \<equiv> fl (c * tri h)"
  defines "mm \<equiv> base_of M m"
  shows "60 \<le> h \<and> h < 360 \<and>
     (case primes h c x of (rP, gP, bP) \<Rightarrow>
        chan rP mm = of_nat R \<and> chan gP mm = of_nat M \<and> chan bP mm = of_nat B)"
proof -
  define Q :: rat where "Q = (of_nat B - of_nat R) / (of_nat M - of_nat m)"
  define q where "q = quot8 B R M m"
  have mM: "m \<le> M" using assms(1) by simp
  have cmax: "chan c mm = of_nat M" unfolding c_def mm_def using mM assms(2) by (rule chan_max)
  have cmin: "chan 0 mm = of_nat m" unfolding mm_def using mM assms(2) by (rule chan_min)
  have qb: "\<bar>q\<bar> \<le> 1" unfolding q_def using assms(1,2,5,6,3,4) by (rule quot8_bound)
  have qc: "\<bar>q - Q\<bar> \<le> 1537 * tiny"
    unfolding q_def Q_def using assms(1,2,5,6,3,4) by (rule quot8_close)
  have hl: "60 \<le> h" and hu: "h \<le> 180"
    using hue_offset(1,2)[OF qb qc, of 2] by (simp_all add: h_def q_def)
  have "\<bar>h - 60 * (Q + 2)\<bar> \<le> 92281 * tiny"
    using hue_offset(3)[OF qb qc, of 2] by (simp add: h_def q_def)
  then have hc: "\<bar>h - (Q * 60 + 120)\<bar> \<le> 92281 * tiny" by (simp add: algebra_simps)
  consider "h < 120" | "120 \<le> h" "h < 180" | "h = 180" using hu by linarith
  then show ?thesis
  proof cases
    case 1
    have "Q < 1 / 255" using hc 1 tiny_small by linarith
    then have "B \<le> R" unfolding Q_def by (rule grid_le[OF assms(1,2)])
    then have mB: "m = B" using assms(7) by simp
    have "\<bar>tri h - (2 * of_int 0 + 2 - h / 60)\<bar> \<le> 3 * tiny"
      using hl 1 by (intro tri_odd) simp_all
    then have "\<bar>tri h - (- Q)\<bar> \<le> 2000 * tiny" using hc tiny_pos by (simp; linarith?)
    moreover have "- Q = (of_nat R - of_nat m) / (of_nat M - of_nat m)"
      unfolding Q_def mB by (simp add: ratio_neg[of "of_nat B" "of_nat R"])
    ultimately have "\<bar>tri h - (of_nat R - of_nat m) / (of_nat M - of_nat m)\<bar> \<le> 2000 * tiny"
      by simp
    then have "chan x mm = of_nat R"
      unfolding x_def c_def mm_def using assms(1-4) by (intro chan_mid) simp_all
    then show ?thesis using hl 1 cmax cmin mB by (simp add: primes_def)
  next
    case 2
    have "- Q < 1 / 255" using hc 2 tiny_small by linarith
    then have "(of_nat R - of_nat B) / ((of_nat M :: rat) - of_nat m) < 1 / 255"
      unfolding Q_def using ratio_neg[of "of_nat R" "of_nat B" "of_nat M - of_nat m"] by simp
    then have "R \<le> B" by (rule grid_le[OF assms(1,2)])
    then have mR: "m = R" using assms(7) by simp
    have "\<bar>tri h - (h / 60 - 2 * of_int 1)\<bar> \<le> 3 * tiny"
      using 2 by (intro tri_even) simp_all
    then have "\<bar>tri h - Q\<bar> \<le> 2000 * tiny" using hc tiny_pos by (simp; linarith?)
    then have "\<bar>tri h - (of_nat B - of_nat m) / (of_nat M - of_nat m)\<bar> \<le> 2000 * tiny"
      by (simp add: Q_def mR)
    then have "chan x mm = of_nat B"
      unfolding x_def c_def mm_def using assms(1,2,5,6) by (intro chan_mid) simp_all
    then show ?thesis using 2 cmax cmin mR by (simp add: primes_def)
  next
    case 3
    have "1 - 1 / 255 < Q" using hc 3 tiny_small by (simp; linarith?)
    then have top: "B = M \<and> R = m" unfolding Q_def by (rule grid_top[OF assms(1,2,6,3)])
    have "\<bar>tri h - (2 * of_int 1 + 2 - h / 60)\<bar> \<le> 3 * tiny"
      using 3 by (intro tri_odd) simp_all
    then have "\<bar>tri h - 1\<bar> \<le> 2000 * tiny" using 3 tiny_pos by simp
    then have "\<bar>tri h - (of_nat M - of_nat m) / (of_nat M - of_nat m)\<bar> \<le> 2000 * tiny"
      using ratio_one[OF assms(1)] by simp
    then have "chan x mm = of_nat M"
      unfolding x_def c_def mm_def using assms(1,2) by (intro chan_mid) simp_all
    then show ?thesis using 3 cmax cmin top by (simp add: primes_def)
  qed
qed

text \<open>The third branch of the hue: blue alone is the largest channel.\<close>

lemma channels_blue_max:
  assumes "m < M" "M \<le> 255" "m \<le> R" "R < M" "m \<le> G" "G < M" "m = min R G"
  defines "h \<equiv> fl (fl (quot8 R G M m + 4) * 60)"
  defines "c \<equiv> chroma_of M m"
  defines "x \<equiv> fl (c * tri h)"
  defines "mm \<equiv> base_of M m"
  shows "180 \<le> h \<and> h < 360 \<and>
     (case primes h c x of (rP, gP, bP) \<Rightarrow>
        chan rP mm = of_nat R \<and> chan gP mm = of_nat G \<and> chan bP mm = of_nat M)"
proof -
  define Q :: rat where "Q = (of_nat R - of_nat G) / (of_nat M - of_nat m)"
  define q where "q = quot8 R G M m"
  have mM: "m \<le> M" using assms(1) by simp
  have RM: "R \<le> M" and GM: "G \<le> M" using assms(4,6) by simp_all
  have cmax: "chan c mm = of_nat M" unfolding c_def mm_def using mM assms(2) by (rule chan_max)
  have cmin: "chan 0 mm = of_nat m" unfolding mm_def using mM assms(2) by (rule chan_min)
  have qb: "\<bar>q\<bar> \<le> 1" unfolding q_def using assms(1,2,3) RM assms(5) GM by (rule quot8_bound)
  have qc: "\<bar>q - Q\<bar> \<le> 1537 * tiny"
    unfolding q_def Q_def using assms(1,2,3) RM assms(5) GM by (rule quot8_close)
  have hl: "180 \<le> h" and hu: "h \<le> 300"
    using hue_offset(1,2)[OF qb qc, of 4] by (simp_all add: h_def q_def)
  have "\<bar>h - 60 * (Q + 4)\<bar> \<le> 92281 * tiny"
    using hue_offset(3)[OF qb qc, of 4] by (simp add: h_def q_def)
  then have hc: "\<bar>h - (Q * 60 + 240)\<bar> \<le> 92281 * tiny" by (simp add: algebra_simps)
  have "\<not> 1 - 1 / 255 < Q"
  proof
    assume "1 - 1 / 255 < Q"
    then have "R = M \<and> G = m" unfolding Q_def by (rule grid_top[OF assms(1,2) RM assms(5)])
    then show False using assms(4) by simp
  qed
  then have hu': "h < 300" using hc tiny_small by linarith
  show ?thesis
  proof (cases "h < 240")
    case True
    have "Q < 1 / 255" using hc True tiny_small by linarith
    then have "R \<le> G" unfolding Q_def by (rule grid_le[OF assms(1,2)])
    then have mR: "m = R" using assms(7) by simp
    have "\<bar>tri h - (2 * of_int 1 + 2 - h / 60)\<bar> \<le> 3 * tiny"
      using hl True by (intro tri_odd) simp_all
    then have "\<bar>tri h - (- Q)\<bar> \<le> 2000 * tiny" using hc tiny_pos by (simp; linarith?)
    moreover have "- Q = (of_nat G - of_nat m) / (of_nat M - of_nat m)"
      unfolding Q_def mR by (simp add: ratio_neg[of "of_nat R" "of_nat G"])
    ultimately have "\<bar>tri h - (of_nat G - of_nat m) / (of_nat M - of_nat m)\<bar> \<le> 2000 * tiny"
      by simp
    then have "chan x mm = of_nat G"
      unfolding x_def c_def mm_def using assms(1,2,5) GM by (intro chan_mid) simp_all
    then show ?thesis using hl True cmax cmin mR by (simp add: primes_def)
  next
    case False
    have "- Q < 1 / 255" using hc False tiny_small by linarith
    then have "(of_nat G - of_nat R) / ((of_nat M :: rat) - of_nat m) < 1 / 255"
      unfolding Q_def using ratio_neg[of "of_nat G" "of_nat R" "of_nat M - of_nat m"] by simp
    then have "G \<le> R" by (rule grid_le[OF assms(1,2)])
    then have mG: "m = G" using assms(7) by simp
    have "\<bar>tri h - (h / 60 - 2 * of_int 2)\<bar> \<le> 3 * tiny"
      using False hu by (intro tri_even) simp_all
    then have "\<bar>tri h - Q\<bar> \<le> 2000 * tiny" using hc tiny_pos by (simp; linarith?)
    then have "\<bar>tri h - (of_nat R - of_nat m) / (of_nat M - of_nat m)\<bar> \<le> 2000 * tiny"
      by (simp add: Q_def mG)
    then have "chan x mm = of_nat R"
      unfolding x_def c_def mm_def using assms(1,2,3) RM by (intro chan_mid) simp_all
    then show ?thesis using False hu' cmax cmin mG by (simp add: primes_def)
  qed
qed

lemma hue8_unfold:
  assumes "M = max (max R G) B" "m = min (min R G) B"
  shows "hue8 R G B =
     (if M = m then 0
      else (let h1 = (if R = M then quot8 G B M m
                      else if G = M then fl (quot8 B R M m + 2)
                      else fl (quot8 R G M m + 4));
                h2 = fl (h1 * 60)
            in if h2 < 0 then fl (h2 + 360) else h2))"
  unfolding assms hue8_def Let_def by (rule refl)

lemma channels_all:
  assumes "R \<le> 255" "G \<le> 255" "B \<le> 255"
  defines "M \<equiv> max (max R G) B"
  defines "m \<equiv> min (min R G) B"
  defines "h \<equiv> hue8 R G B"
  defines "c \<equiv> chroma_of M m"
  defines "x \<equiv> fl (c * tri h)"
  defines "mm \<equiv> base_of M m"
  shows "0 \<le> h \<and> h < 360 \<and>
     (case primes h c x of (rP, gP, bP) \<Rightarrow>
        chan rP mm = of_nat R \<and> chan gP mm = of_nat G \<and> chan bP mm = of_nat B)"
proof -
  have M255: "M \<le> 255" and mM: "m \<le> M" using assms(1-3) by (simp_all add: M_def m_def)
  have rng: "m \<le> R" "R \<le> M" "m \<le> G" "G \<le> M" "m \<le> B" "B \<le> M"
    by (simp_all add: M_def m_def)
  have Me: "M = max (max R G) B" and me: "m = min (min R G) B"
    by (simp_all add: M_def m_def)
  note hu = hue8_unfold[OF Me me, folded h_def]
  show ?thesis
  proof (cases "M = m")
    case True
    then have eq: "R = M" "G = M" "B = M" using rng by simp_all
    have h0: "h = 0" using True by (simp add: hu)
    have c0: "c = 0" using True by (simp add: c_def)
    have x0: "x = 0" by (simp add: x_def c0)
    have "chan 0 mm = of_nat m" unfolding mm_def using mM M255 by (rule chan_min)
    then show ?thesis using True eq by (simp add: h0 c0 x0 primes_def)
  next
    case False
    then have lt: "m < M" using mM by simp
    consider "R = M" | "R \<noteq> M" "G = M" | "R \<noteq> M" "G \<noteq> M" by blast
    then show ?thesis
    proof cases
      case 1
      then have mm': "m = min G B" using rng by (simp add: m_def min_def)
      have hh: "h = (if fl (quot8 G B M m * 60) < 0 then fl (fl (quot8 G B M m * 60) + 360)
                     else fl (quot8 G B M m * 60))"
        using False 1 by (simp add: hu Let_def)
      show ?thesis
        using channels_red_max[OF lt M255 rng(3,4,5,6) mm'] 1
        unfolding hh x_def c_def mm_def hh by simp
    next
      case 2
      then have mm': "m = min R B" using rng by (simp add: m_def min_def)
      have g: "60 \<le> fl (fl (quot8 B R M m + 2) * 60)"
        using channels_green_max[OF lt M255 rng(1,2,5,6) mm'] by simp
      have hh: "h = fl (fl (quot8 B R M m + 2) * 60)"
        using False 2 g by (simp add: hu Let_def)
      show ?thesis
        using channels_green_max[OF lt M255 rng(1,2,5,6) mm'] 2 g
        unfolding hh x_def c_def mm_def hh by simp
    next
      case 3
      then have BM: "B = M" by (simp add: M_def max_def split: if_splits)
      have RM: "R < M" and GM: "G < M" using 3 rng by simp_all
      have mm': "m = min R G" using rng BM by (simp add: m_def min_def)
      have g: "180 \<le> fl (fl (quot8 R G M m + 4) * 60)"
        using channels_blue_max[OF lt M255 rng(1) RM rng(3) GM mm'] by simp
      have hh: "h = fl (fl (quot8 R G M m + 4) * 60)"
        using False 3 g by (simp add: hu Let_def)
      show ?thesis
        using channels_blue_max[OF lt M255 rng(1) RM rng(3) GM mm'] BM g
        unfolding hh x_def c_def mm_def hh by simp
    qed
  qed
qed

text \<open>
  Claim C2.  For integer channels \<open>R\<close>, \<open>G\<close>, \<open>B\<close> between 0 and 255 and any alpha,
  \<^verbatim>\<open>hsvToRgb(rgbToHsv(rgb))\<close> is \<^verbatim>\<open>rgb\<close>: the three channels come back as the same integers
  and the alpha is passed through.  The arithmetic is that of binary64, every operation
  rounded to nearest, ties to even.
\<close>

theorem hsv_round_trip:
  assumes "R \<le> 255" "G \<le> 255" "B \<le> 255"
  shows "hsvToRgb (rgbToHsv \<lparr>rgb_r = Fin (of_nat R), rgb_g = Fin (of_nat G),
                             rgb_b = Fin (of_nat B), rgb_a = al\<rparr>)
         = \<lparr>rgb_r = Fin (of_nat R), rgb_g = Fin (of_nat G), rgb_b = Fin (of_nat B), rgb_a = al\<rparr>"
proof -
  define M where "M = max (max R G) B"
  define m where "m = min (min R G) B"
  have M255: "M \<le> 255" and mM: "m \<le> M" using assms by (simp_all add: M_def m_def)
  have s: "sat8 R G B = sat_of M m" by (simp add: sat8_eq M_def m_def)
  have sb: "\<bar>sat8 R G B\<bar> \<le> 2" unfolding s using mM M255 by (rule sat_range)
  have vb: "\<bar>unit8 M\<bar> \<le> 2" using unit8_nonneg[of M] unit8_le1[OF M255] by simp
  have c: "fl (unit8 M * sat8 R G B) = chroma_of M m" by (simp add: s chroma_of_def)
  have b: "fl (unit8 M - chroma_of M m) = base_of M m" by (simp add: base_of_def)
  note ch = channels_all[OF assms, folded M_def m_def]
  have h: "0 \<le> hue8 R G B" "hue8 R G B < 360" using ch by simp_all
  have "rgbToHsv \<lparr>rgb_r = Fin (of_nat R), rgb_g = Fin (of_nat G),
                   rgb_b = Fin (of_nat B), rgb_a = al\<rparr>
        = \<lparr>hsv_h = Fin (hue8 R G B), hsv_s = Fin (sat8 R G B), hsv_v = Fin (unit8 M), hsv_a = al\<rparr>"
    using rgbToHsv_Fin[OF assms] by (simp add: M_def)
  then show ?thesis
    using ch by (simp add: hsvToRgb_Fin[OF h sb vb] Let_def c b split: prod.splits)
qed

text \<open>The theorem at the colour \<open>(100, 150, 200)\<close> with alpha one half.\<close>

theorem hsv_round_trip_witness:
  "(100::nat) \<le> 255 \<and> (150::nat) \<le> 255 \<and> (200::nat) \<le> 255 \<and>
   hsvToRgb (rgbToHsv \<lparr>rgb_r = Fin 100, rgb_g = Fin 150, rgb_b = Fin 200, rgb_a = Fin (1 / 2)\<rparr>)
   = \<lparr>rgb_r = Fin 100, rgb_g = Fin 150, rgb_b = Fin 200, rgb_a = Fin (1 / 2)\<rparr>"
  using hsv_round_trip [of 100 150 200 "Fin (1 / 2)"] by simp

end
